(* ===== verification/Prelude.thy ===== *)
theory Prelude
  imports Main
    "HOL-Library.Word"
    "HOL-Library.Multiset"
    "HOL-Library.List_Lexorder"
    "HOL-Library.Char_ord"
    "HOL-Library.Product_Lexorder"
    "HOL-Library.Signed_Division"
begin

text \<open>
  Shared vocabulary of the development: the Go machine integer \<open>int64\<close> as a
  64-bit word, Go's truncating division on it, the collections of unfolding
  rules that the component theories fill, and the list lemmas on pages of a
  sorted list (\<open>LIMIT\<close>/\<open>OFFSET\<close>) and on sorting by a key (\<open>ORDER BY\<close>)
  that the queue view and the store share.
\<close>

named_theorems model_defs "unfolding rules of the model's operations"
named_theorems go_int "facts on Go int64 values read through sint and unat"

type_synonym int64 = "64 word"

text \<open>
  Go's \<open>/\<close> on \<open>int\<close> (64 bits on the target) truncates towards zero; HOL's
  \<open>div\<close> on \<open>int\<close> rounds down, so the signed division of
  \<open>HOL-Library.Signed_Division\<close> is used, read back into a word.
\<close>

definition go_div :: "int64 \<Rightarrow> int64 \<Rightarrow> int64" where
  "go_div a b = word_of_int (sint a sdiv sint b)"

subsection \<open>Go int64 values\<close>

lemma sint_eq_unat_small [go_int]:
  fixes w :: int64
  assumes "unat w < 2 ^ 63"
  shows "sint w = int (unat w)"
proof -
  have u: "uint w = int (unat w)" by (metis of_nat_unat)
  have "uint w < 2 ^ 63"
    using assms by (metis u of_nat_less_iff of_nat_numeral of_nat_power)
  moreover have "- (2 ^ 63) \<le> uint w"
    by (rule order_trans [OF _ uint_ge_0]) simp
  ultimately have "signed_take_bit 63 (uint w) = uint w"
    by (simp add: signed_take_bit_int_eq_self)
  moreover have "sint w = signed_take_bit 63 (uint w)"
    by (simp add: sint_uint)
  ultimately show ?thesis by (simp only: u)
qed

lemma unat_eq_sint_nonneg [go_int]:
  fixes w :: int64
  assumes "0 \<le> sint w"
  shows "int (unat w) = sint w"
proof -
  have "sint w < 2 ^ 63" using sint_lt [of w] by simp
  with assms have "take_bit 64 (sint w) = sint w"
    by (simp add: take_bit_int_eq_self)
  then have "uint w = sint w" by (simp add: uint_sint)
  then show ?thesis by (metis of_nat_unat)
qed

lemma sint_of_nat_small [go_int]:
  assumes "n < 2 ^ 63"
  shows "sint (word_of_nat n :: int64) = int n"
proof -
  have "unat (word_of_nat n :: int64) = n"
    using assms by (simp add: unat_of_nat take_bit_nat_eq_self)
  with assms show ?thesis by (simp add: sint_eq_unat_small)
qed

lemma go_div_nonneg [go_int]:
  assumes "0 \<le> sint a" and "0 < sint b"
  shows "sint (go_div a b) = sint a div sint b"
proof -
  have q: "sint a sdiv sint b = sint a div sint b"
    using assms by (cases "sint a = 0") (simp_all add: signed_divide_int_def sgn_if)
  have "0 \<le> sint a div sint b" using assms by (simp add: pos_imp_zdiv_nonneg_iff)
  moreover have "sint a div sint b \<le> sint a"
    using assms zdiv_mono2 [of "sint a" 1 "sint b"] by simp
  moreover have "sint a < 2 ^ 63" using sint_lt [of a] by simp
  ultimately have "signed_take_bit 63 (sint a div sint b) = sint a div sint b"
    by (simp add: signed_take_bit_int_eq_self)
  then show ?thesis by (simp add: go_div_def q sint_sbintrunc')
qed

subsection \<open>Pages of a list\<close>

text \<open>
  \<open>LIMIT k OFFSET (i * k)\<close> on a sorted result is \<open>take k (drop (i * k) xs)\<close>;
  the pages \<open>0 .. n - 1\<close> together are the first \<open>n * k\<close> rows.
\<close>

lemma concat_pages:
  "concat (map (\<lambda>i. take k (drop (i * k) xs)) [0..<n]) = take (n * k) xs"
proof (induction n)
  case 0
  then show ?case by simp
next
  case (Suc n)
  have "take (n * k) xs @ take k (drop (n * k) xs) = take (n * k + k) xs"
    by (simp add: take_add)
  with Suc show ?case by (simp add: add.commute)
qed

lemma ceil_div_covers:
  fixes m k :: nat
  assumes "0 < k"
  shows "m \<le> (m + k - 1) div k * k"
proof -
  have "m + k - 1 = (m + k - 1) div k * k + (m + k - 1) mod k"
    by simp
  moreover have "(m + k - 1) mod k < k" using assms by simp
  ultimately show ?thesis by linarith
qed

lemma ceil_div_least:
  fixes m k :: nat
  assumes "0 < k"
  shows "(m + k - 1) div k * k < m + k"
proof -
  have "(m + k - 1) div k * k \<le> m + k - 1"
    by simp
  with assms show ?thesis by linarith
qed

text \<open>
  Paging a list: the pages \<open>1 .. ceil(n / K)\<close> of size \<open>K\<close> together hold
  all of it, and their indices and offsets stay below a bound on \<open>n\<close>.
\<close>

lemma sum_pages_length:
  fixes K :: nat
  assumes "0 < K"
  shows "(\<Sum>i \<leftarrow> [1..<Suc ((length xs + K - 1) div K)]. length (take K (drop ((i - 1) * K) xs)))
           = length xs"
proof -
  let ?P = "(length xs + K - 1) div K"
  have r: "[1..<Suc ?P] = map Suc [0..<?P]" by (simp add: map_Suc_upt)
  have "(\<Sum>i \<leftarrow> [1..<Suc ?P]. length (take K (drop ((i - 1) * K) xs))) =
        (\<Sum>i \<leftarrow> [0..<?P]. length (take K (drop (i * K) xs)))"
    unfolding r map_map comp_def by simp
  also have "\<dots> = length (concat (map (\<lambda>i. take K (drop (i * K) xs)) [0..<?P]))"
    by (simp add: length_concat comp_def)
  also have "\<dots> = length xs"
    using ceil_div_covers [OF assms, of "length xs"] by (simp add: concat_pages min_def)
  finally show ?thesis .
qed

lemma page_index_bounds:
  fixes n K i :: nat
  assumes "0 < K" "1 \<le> i" "i \<le> (n + K - 1) div K" "n < 2 ^ 62"
  shows "(i - 1) * K < 2 ^ 62 \<and> i < 2 ^ 62"
proof -
  let ?P = "(n + K - 1) div K"
  have PK: "(?P - 1) * K < n"
  proof -
    have "K \<le> ?P * K" using assms(2,3) by simp
    moreover have "(?P - 1) * K = ?P * K - K" by (simp add: diff_mult_distrib)
    ultimately show ?thesis using ceil_div_least [OF assms(1), of n] by linarith
  qed
  have "(i - 1) * K \<le> (?P - 1) * K" by (intro mult_le_mono1 diff_le_mono) (rule assms(3))
  moreover have "?P - 1 \<le> (?P - 1) * K" using assms(1) by simp
  ultimately show ?thesis using PK assms(2,3,4) by linarith
qed

text \<open>A handler's result is determined by its answer and its final state.\<close>

lemma pair_of_fst: "fst p = a \<Longrightarrow> p = (a, snd p)"
  by (cases p) simp

lemma Inr_projr_pair: "\<not> isl x \<Longrightarrow> x = Inr (fst (projr x), snd (projr x))"
  by (cases x) auto

end
