(* ===== verification/Model.thy ===== *)
theory Model
  imports Prelude
begin

text \<open>
  The data of \<open>src/backend/main.go\<close>: the Go structs \<open>Video\<close>, \<open>VideoQueue\<close>
  and \<open>PaginationParams\<close> as records (Go \<open>string\<close> as \<open>string\<close>, Go \<open>int\<close>
  and \<open>int64\<close> as \<open>int64\<close>, a 64-bit word), the row of the \<open>videos\<close> table
  that \<open>initDB\<close> creates, the store as a record of its rows and its
  connection state, and the errors of the handlers as a datatype.
  Record fields share one name space, so the Go field \<open>Status\<close> of
  \<open>PaginationParams\<close> is called \<open>StatusFilter\<close> here.
\<close>

record video =
  ID :: string
  Path :: string
  Resolution :: string
  Bitrate :: string
  Status :: string
  OriginalSize :: int64

record video_queue =
  Pending :: "video list"
  Processing :: "video list"
  Completed :: "video list"
  Total :: int64

record pagination_params =
  Page :: int64
  PageSize :: int64
  StatusFilter :: string

text \<open>The \<open>"pagination"\<close> object of the \<open>/queue\<close> response.\<close>

record pagination =
  pg_page :: int64
  pg_pageSize :: int64
  pg_total :: int64
  pg_pages :: int64

text \<open>
  A row of \<open>videos\<close>: \<open>resolution\<close> and \<open>bitrate\<close> are nullable \<open>TEXT\<close>
  columns, so they are options; the other columns are \<open>NOT NULL\<close>.
\<close>

record video_row =
  id_col :: string
  path_col :: string
  resolution_col :: "string option"
  bitrate_col :: "string option"
  status_col :: string
  original_size_col :: int64

text \<open>
  The store: the rows of \<open>videos\<close> in storage order, and whether the
  connection pool reaches the server (every statement fails when it does not).
\<close>

record db =
  rows :: "video_row list"
  online :: bool

datatype db_error =
    ConnectionFailed
  | UniqueViolation string
  | NegativeOffset int
  | NegativeLimit int
  | SqlSyntax string

text \<open>
  What a handler answers besides success: \<open>400\<close> when gin cannot bind the
  request, \<open>500\<close> with the store's error, \<open>500\<close> with the walk's error.
\<close>

datatype handler_error =
    BadRequest
  | ServerError db_error
  | WalkError string

end
