(* ===== verification/Store.thy ===== *)
theory Store
  imports Model
begin

text \<open>
  The SQL statements of \<open>main.go\<close> as functions on the store: the path query
  of \<open>refreshProcessedPathsCache\<close>, the count and page queries of
  \<open>getQueue\<close>, the \<open>INSERT\<close> of \<open>addToQueue\<close> and the \<open>UPDATE\<close> of
  \<open>updateVideoStatus\<close>. The store is PostgreSQL, not code of the repository;
  each function is the meaning of the statement text at the lines it models.
  A \<open>WHERE\<close> clause is read by \<open>parse_where\<close>: the model covers the
  clauses \<open>getQueue\<close> builds for a status without a quote, an equality on
  \<open>status\<close> with one string literal (SQL doubles a quote inside a literal);
  any other text is a \<open>SqlSyntax\<close> error of the statement.
  \<open>ORDER BY\<close> compares paths bytewise (the C collation), and rows with equal
  keys keep their storage order, one of the orders PostgreSQL may choose.
\<close>

subsection \<open>String literals and the WHERE clause\<close>

definition sql_quote :: char where
  "sql_quote = CHR 0x27"

text \<open>
  The body of a literal after its opening quote: characters up to the first
  quote that is not doubled; \<open>None\<close> for an unterminated literal.
\<close>

fun sql_literal_body :: "string \<Rightarrow> string \<Rightarrow> (string \<times> string) option" where
  "sql_literal_body acc [] = None"
| "sql_literal_body acc (c # cs) =
     (if c = sql_quote then
        (case cs of
          c' # cs' \<Rightarrow>
            if c' = sql_quote then sql_literal_body (sql_quote # acc) cs'
            else Some (rev acc, cs)
        | [] \<Rightarrow> Some (rev acc, []))
      else sql_literal_body (c # acc) cs)"

definition where_prefix :: string where
  "where_prefix = '' WHERE status = ''"

text \<open>\<open>Some None\<close>: no filter; \<open>Some (Some s)\<close>: \<open>status = s\<close>.\<close>

definition parse_where :: "string \<Rightarrow> string option option" where
  "parse_where w =
     (if w = [] then Some None
      else if take (Suc (length where_prefix)) w = where_prefix @ [sql_quote] then
        (case sql_literal_body [] (drop (Suc (length where_prefix)) w) of
          Some (v, []) \<Rightarrow> Some (Some v)
        | _ \<Rightarrow> None)
      else None)"

definition status_matches :: "string option \<Rightarrow> video_row \<Rightarrow> bool" where
  "status_matches f r = (case f of None \<Rightarrow> True | Some s \<Rightarrow> status_col r = s)"

definition selected_rows :: "db \<Rightarrow> string option \<Rightarrow> video_row list" where
  "selected_rows d f = filter (status_matches f) (rows d)"

subsection \<open>The statements\<close>

text \<open>\<open>SELECT path FROM videos\<close>.\<close>

definition select_paths :: "db \<Rightarrow> db_error + string list" where
  "select_paths d = (if online d then Inr (map path_col (rows d)) else Inl ConnectionFailed)"

text \<open>\<open>SELECT COUNT(*) FROM videos\<close> followed by the clause \<open>w\<close>.\<close>

definition count_query :: "db \<Rightarrow> string \<Rightarrow> db_error + int64" where
  "count_query d w =
     (if \<not> online d then Inl ConnectionFailed
      else case parse_where w of
        None \<Rightarrow> Inl (SqlSyntax w)
      | Some f \<Rightarrow> Inr (word_of_nat (length (selected_rows d f))))"

text \<open>
  \<open>ORDER BY CASE status WHEN 'processing' THEN 1 WHEN 'pending' THEN 2
  WHEN 'completed' THEN 3 ELSE 4 END, path\<close>.
\<close>

definition status_rank :: "string \<Rightarrow> nat" where
  "status_rank s =
     (if s = ''processing'' then 1
      else if s = ''pending'' then 2
      else if s = ''completed'' then 3
      else 4)"

definition order_key :: "video_row \<Rightarrow> nat \<times> string" where
  "order_key r = (status_rank (status_col r), path_col r)"

definition ordered_rows :: "db \<Rightarrow> string option \<Rightarrow> video_row list" where
  "ordered_rows d f = sort_key order_key (selected_rows d f)"

text \<open>
  What an \<open>ORDER BY\<close> promises: the selected rows, each once, sorted by
  the key; which of several such lists the server returns is its choice.
\<close>

definition is_ordered_result :: "db \<Rightarrow> string option \<Rightarrow> video_row list \<Rightarrow> bool" where
  "is_ordered_result d f rs \<longleftrightarrow>
     mset rs = mset (selected_rows d f) \<and> sorted (map order_key rs)"

text \<open>
  The page query: the clause, the order, then \<open>LIMIT lim OFFSET off\<close> with
  both numbers printed in decimal by \<open>fmt.Sprintf("%d")\<close>; PostgreSQL
  rejects a negative \<open>LIMIT\<close> or \<open>OFFSET\<close>.
\<close>

definition page_query :: "db \<Rightarrow> string \<Rightarrow> int64 \<Rightarrow> int64 \<Rightarrow> db_error + video_row list" where
  "page_query d w lim off =
     (if \<not> online d then Inl ConnectionFailed
      else case parse_where w of
        None \<Rightarrow> Inl (SqlSyntax w)
      | Some f \<Rightarrow>
          if sint lim < 0 then Inl (NegativeLimit (sint lim))
          else if sint off < 0 then Inl (NegativeOffset (sint off))
          else Inr (take (unat lim) (drop (unat off) (ordered_rows d f))))"

text \<open>\<open>INSERT INTO videos ... VALUES (...)\<close>: \<open>id\<close> is the primary key.\<close>

definition insert_query :: "db \<Rightarrow> video_row \<Rightarrow> db_error + db" where
  "insert_query d r =
     (if \<not> online d then Inl ConnectionFailed
      else if id_col r \<in> set (map id_col (rows d)) then Inl (UniqueViolation (id_col r))
      else Inr (d\<lparr>rows := rows d @ [r]\<rparr>))"

text \<open>\<open>UPDATE videos SET status = $1 WHERE id = $2\<close>, with the number of rows
  it affects (the \<open>sql.Result\<close> the handler ignores).\<close>

definition set_status :: "string \<Rightarrow> string \<Rightarrow> video_row \<Rightarrow> video_row" where
  "set_status i s r = (if id_col r = i then r\<lparr>status_col := s\<rparr> else r)"

definition update_query :: "db \<Rightarrow> string \<Rightarrow> string \<Rightarrow> db_error + db \<times> nat" where
  "update_query d s i =
     (if \<not> online d then Inl ConnectionFailed
      else Inr (d\<lparr>rows := map (set_status i s) (rows d)\<rparr>,
                length (filter (\<lambda>r. id_col r = i) (rows d))))"


lemmas store_defs [model_defs] = select_paths_def count_query_def page_query_def
  insert_query_def update_query_def selected_rows_def ordered_rows_def status_matches_def
  order_key_def status_rank_def parse_where_def where_prefix_def sql_quote_def

subsection \<open>Reading literals\<close>

lemma sql_literal_body_plain:
  "sql_quote \<notin> set v \<Longrightarrow> sql_literal_body acc (v @ [sql_quote]) = Some (rev acc @ v, [])"
  by (induction v arbitrary: acc) auto

text \<open>
  What reading a literal consumes: every quote of the value stood for two
  characters of the text, and one more is the closing quote.
\<close>

lemma sql_literal_body_length:
  "sql_literal_body acc t = Some (v, rest) \<Longrightarrow>
     length v + count_list v sql_quote + 1 + length rest =
     length acc + count_list acc sql_quote + length t"
proof (induction acc t rule: sql_literal_body.induct)
  case (1 acc)
  then show ?case by simp
next
  case (2 acc c cs)
  show ?case
  proof (cases "c = sql_quote")
    case True
    show ?thesis
    proof (cases cs)
      case Nil
      with True "2.prems" show ?thesis by auto
    next
      case (Cons c' cs')
      with True "2.prems" "2.IH"(1) show ?thesis
        by (auto split: if_splits)
    qed
  next
    case False
    with "2.prems" "2.IH"(2) show ?thesis by auto
  qed
qed

lemma parse_where_literal:
  "parse_where (where_prefix @ sql_quote # t) =
     (case sql_literal_body [] t of Some (v, []) \<Rightarrow> Some (Some v) | _ \<Rightarrow> None)"
  by (simp add: parse_where_def)

subsection \<open>Order of the page query\<close>

lemma status_rank_order:
  "status_rank ''processing'' < status_rank ''pending''"
  "status_rank ''pending'' < status_rank ''completed''"
  "s \<notin> {''processing'', ''pending'', ''completed''} \<Longrightarrow> status_rank ''completed'' < status_rank s"
  by (simp_all add: status_rank_def)

lemma sorted_ordered_rows: "sorted (map order_key (ordered_rows d f))"
  by (simp add: ordered_rows_def)

lemma mset_ordered_rows: "mset (ordered_rows d f) = mset (selected_rows d f)"
  by (simp add: ordered_rows_def)

lemma length_ordered_rows: "length (ordered_rows d f) = length (selected_rows d f)"
  by (simp add: ordered_rows_def)

lemma inj_order_key_distinct_paths:
  assumes "distinct (map path_col (rows d))"
  shows "inj_on order_key (set (selected_rows d f))"
proof -
  from assms have "inj_on path_col (set (rows d))" by (simp add: distinct_map)
  then have "inj_on path_col (set (selected_rows d f))"
    by (rule inj_on_subset) (auto simp: selected_rows_def)
  then show ?thesis by (auto simp: inj_on_def order_key_def)
qed

text \<open>
  C9. Order of the page query: of two rows of the result, a later
  \<open>processing\<close> row has only \<open>processing\<close> rows before it, a later
  \<open>pending\<close> row only \<open>processing\<close> or \<open>pending\<close> ones, a later
  \<open>completed\<close> row only rows of the three statuses; rows of the same
  status, and rows of statuses outside the three, come in path order.
\<close>

theorem ordered_rows_priority:
  assumes "i < j" "j < length (ordered_rows d f)"
  shows "(status_col (ordered_rows d f ! j) = ''processing'' \<longrightarrow>
            status_col (ordered_rows d f ! i) = ''processing'')
       \<and> (status_col (ordered_rows d f ! j) = ''pending'' \<longrightarrow>
            status_col (ordered_rows d f ! i) \<in> {''processing'', ''pending''})
       \<and> (status_col (ordered_rows d f ! j) = ''completed'' \<longrightarrow>
            status_col (ordered_rows d f ! i) \<in> {''processing'', ''pending'', ''completed''})
       \<and> (status_col (ordered_rows d f ! i) = status_col (ordered_rows d f ! j) \<longrightarrow>
            path_col (ordered_rows d f ! i) \<le> path_col (ordered_rows d f ! j))
       \<and> (status_col (ordered_rows d f ! i) \<notin> {''processing'', ''pending'', ''completed''} \<and>
          status_col (ordered_rows d f ! j) \<notin> {''processing'', ''pending'', ''completed''} \<longrightarrow>
            path_col (ordered_rows d f ! i) \<le> path_col (ordered_rows d f ! j))"
proof -
  have "order_key (ordered_rows d f ! i) \<le> order_key (ordered_rows d f ! j)"
    using sorted_nth_mono [OF sorted_ordered_rows [of d f], of i j] assms by simp
  then show ?thesis
    by (auto simp: order_key_def less_eq_prod_def status_rank_def split: if_splits)
qed

text \<open>
  C10. Refinement of the \<open>ORDER BY\<close>: the model's result is an ordered
  result, and when no two rows share a path it is the only one, so every
  server answers the same pages.
\<close>

theorem ordered_rows_unique:
  assumes "distinct (map path_col (rows d))"
  shows "is_ordered_result d f rs \<longleftrightarrow> rs = ordered_rows d f"
proof
  assume "is_ordered_result d f rs"
  then have "mset (selected_rows d f) = mset rs" "sorted (map order_key rs)"
    by (simp_all add: is_ordered_result_def)
  with inj_order_key_distinct_paths [OF assms, of f]
  have "sort_key order_key (selected_rows d f) = rs"
    by (intro sort_key_inj_key_eq) simp_all
  then show "rs = ordered_rows d f" by (simp add: ordered_rows_def)
next
  assume "rs = ordered_rows d f"
  then show "is_ordered_result d f rs"
    by (simp add: is_ordered_result_def mset_ordered_rows sorted_ordered_rows)
qed

subsection \<open>Writes\<close>

lemma insert_query_Inr:
  "insert_query d r = Inr d' \<longleftrightarrow>
     online d \<and> id_col r \<notin> id_col ` set (rows d) \<and> d' = d\<lparr>rows := rows d @ [r]\<rparr>"
  by (auto simp: insert_query_def)

lemma insert_query_distinct_ids:
  "distinct (map id_col (rows d)) \<Longrightarrow> insert_query d r = Inr d' \<Longrightarrow>
     distinct (map id_col (rows d'))"
  by (auto simp: insert_query_Inr)

lemma update_query_Inr:
  "update_query d s i = Inr (d', n) \<longleftrightarrow>
     online d \<and> d' = d\<lparr>rows := map (set_status i s) (rows d)\<rparr> \<and>
     n = length (filter (\<lambda>r. id_col r = i) (rows d))"
  by (auto simp: update_query_def)

lemma set_status_keeps:
  "id_col (set_status i s r) = id_col r" "path_col (set_status i s r) = path_col r"
  "resolution_col (set_status i s r) = resolution_col r"
  "bitrate_col (set_status i s r) = bitrate_col r"
  by (simp_all add: set_status_def)

lemma map_set_status_absent:
  "i \<notin> id_col ` set rs \<Longrightarrow> map (set_status i st) rs = rs"
  by (induction rs) (auto simp: set_status_def)

lemma comp_set_status [simp]:
  "id_col \<circ> set_status i s = id_col" "path_col \<circ> set_status i s = path_col"
  by (simp_all add: fun_eq_iff set_status_keeps)

lemma map_set_status_cols [simp]:
  "map id_col (map (set_status i s) rs) = map id_col rs"
  "map path_col (map (set_status i s) rs) = map path_col rs"
  by (induction rs) (simp_all add: set_status_keeps)

end
