(* ===== verification/QueueView.thy ===== *)
theory QueueView
  imports Store
begin

text \<open>
  The queue view, \<open>getQueue\<close> and \<open>scanVideoRows\<close> of \<open>main.go\<close>: the
  clamping of the bound parameters, the offset computed in Go \<open>int\<close>
  (64 bits, wrapping), the \<open>WHERE\<close> clause spliced from the status filter,
  the count query, the page query, the scan of its rows (a row with a \<open>NULL\<close>
  column fails to scan into a Go \<open>string\<close> and is skipped), the loop that
  groups the videos into three buckets, and the pagination object.
\<close>

subsection \<open>Parameters\<close>

text \<open>\<open>if params.Page < 1 { ... }\<close> and \<open>if params.PageSize < 1 || params.PageSize > 100 { ... }\<close>.\<close>

definition clamp_params :: "pagination_params \<Rightarrow> pagination_params" where
  "clamp_params p =
     (let p1 = (if sint (Page p) < 1 then p\<lparr>Page := 1\<rparr> else p)
      in if sint (PageSize p1) < 1 \<or> 100 < sint (PageSize p1) then p1\<lparr>PageSize := 10\<rparr> else p1)"

text \<open>\<open>offset := (params.Page - 1) * params.PageSize\<close>, in wrapping 64-bit arithmetic.\<close>

definition page_offset :: "pagination_params \<Rightarrow> int64" where
  "page_offset p = (Page p - 1) * PageSize p"

text \<open>\<open>whereClause = fmt.Sprintf(" WHERE status = '%s'", params.Status)\<close> when the
  filter is not empty.\<close>

definition whereClause :: "string \<Rightarrow> string" where
  "whereClause s = (if s = [] then [] else where_prefix @ [sql_quote] @ s @ [sql_quote])"

subsection \<open>Scanning and grouping\<close>

text \<open>\<open>rows.Scan\<close> into six Go values: a \<open>NULL\<close> in \<open>resolution\<close> or
  \<open>bitrate\<close> cannot be stored in a \<open>string\<close> and the row is skipped.\<close>

definition scan_video_row :: "video_row \<Rightarrow> video option" where
  "scan_video_row r =
     (case (resolution_col r, bitrate_col r) of
       (Some res, Some br) \<Rightarrow>
         Some \<lparr>ID = id_col r, Path = path_col r, Resolution = res, Bitrate = br,
               Status = status_col r, OriginalSize = original_size_col r\<rparr>
     | _ \<Rightarrow> None)"

fun scanVideoRows :: "video_row list \<Rightarrow> video list" where
  "scanVideoRows [] = []"
| "scanVideoRows (r # rs) =
     (case scan_video_row r of
       None \<Rightarrow> scanVideoRows rs
     | Some v \<Rightarrow> v # scanVideoRows rs)"

text \<open>One iteration of the \<open>switch video.Status\<close> loop.\<close>

definition group_step :: "video_queue \<Rightarrow> video \<Rightarrow> video_queue" where
  "group_step q v =
     (if Status v = ''pending'' then q\<lparr>Pending := Pending q @ [v]\<rparr>
      else if Status v = ''processing'' then q\<lparr>Processing := Processing q @ [v]\<rparr>
      else if Status v = ''completed'' then q\<lparr>Completed := Completed q @ [v]\<rparr>
      else q)"

definition group_videos :: "int64 \<Rightarrow> video list \<Rightarrow> video_queue" where
  "group_videos tot vs =
     foldl group_step \<lparr>Pending = [], Processing = [], Completed = [], Total = tot\<rparr> vs"

text \<open>\<open>"pages": (total + params.PageSize - 1) / params.PageSize\<close>.\<close>

definition pages_count :: "int64 \<Rightarrow> int64 \<Rightarrow> int64" where
  "pages_count tot ps = go_div (tot + ps - 1) ps"

subsection \<open>The handler\<close>

text \<open>
  \<open>bound\<close> is the result of \<open>c.ShouldBindQuery\<close>: \<open>None\<close> when gin cannot
  bind the query (a non-numeric page, say), the parameters with their
  defaults otherwise. The count and the page are two statements, each
  atomic: \<open>getQueue_reads d1 d2\<close> is the handler when the count reads the
  store \<open>d1\<close> and the page query the store \<open>d2\<close> (a write of another
  request may fall between them), \<open>getQueue d\<close> the handler when both
  read \<open>d\<close>.
\<close>

definition getQueue_reads ::
  "db \<Rightarrow> db \<Rightarrow> pagination_params option \<Rightarrow> handler_error + video_queue \<times> pagination" where
  "getQueue_reads d1 d2 bound =
     (case bound of
       None \<Rightarrow> Inl BadRequest
     | Some p0 \<Rightarrow>
         (let p = clamp_params p0;
              off = page_offset p;
              w = whereClause (StatusFilter p)
          in case count_query d1 w of
               Inl e \<Rightarrow> Inl (ServerError e)
             | Inr tot \<Rightarrow>
                 (case page_query d2 w (PageSize p) off of
                   Inl e \<Rightarrow> Inl (ServerError e)
                 | Inr rs \<Rightarrow>
                     Inr (group_videos tot (scanVideoRows rs),
                          \<lparr>pg_page = Page p, pg_pageSize = PageSize p, pg_total = tot,
                           pg_pages = pages_count tot (PageSize p)\<rparr>))))"

definition getQueue :: "db \<Rightarrow> pagination_params option \<Rightarrow> handler_error + video_queue \<times> pagination" where
  "getQueue d bound = getQueue_reads d d bound"


text \<open>The filter a status string denotes, and a row the scan keeps.\<close>

definition filter_of :: "string \<Rightarrow> string option" where
  "filter_of s = (if s = [] then None else Some s)"

definition row_ok :: "video_row \<Rightarrow> bool" where
  "row_ok r \<longleftrightarrow> resolution_col r \<noteq> None \<and> bitrate_col r \<noteq> None"

definition triad_status :: "string \<Rightarrow> bool" where
  "triad_status s \<longleftrightarrow> s = ''pending'' \<or> s = ''processing'' \<or> s = ''completed''"

definition queue_items :: "video_queue \<Rightarrow> nat" where
  "queue_items q = length (Pending q) + length (Processing q) + length (Completed q)"

text \<open>The rows \<open>LIMIT\<close>/\<open>OFFSET\<close> select for the page \<open>Page p\<close> when the offset does not wrap.\<close>

definition page_window :: "pagination_params \<Rightarrow> video_row list \<Rightarrow> video_row list" where
  "page_window p xs = take (unat (PageSize p)) (drop ((unat (Page p) - 1) * unat (PageSize p)) xs)"

lemmas queue_defs [model_defs] = getQueue_def getQueue_reads_def clamp_params_def page_offset_def whereClause_def
  pages_count_def group_videos_def group_step_def scan_video_row_def

subsection \<open>Parameters\<close>

lemma clamp_params_fields:
  "Page (clamp_params p) = (if sint (Page p) < 1 then 1 else Page p)"
  "PageSize (clamp_params p) =
     (if sint (PageSize p) < 1 \<or> 100 < sint (PageSize p) then 10 else PageSize p)"
  "StatusFilter (clamp_params p) = StatusFilter p"
  by (simp_all add: clamp_params_def Let_def)

lemma clamp_params_bounds:
  "1 \<le> sint (Page (clamp_params p)) \<and> 1 \<le> sint (PageSize (clamp_params p)) \<and>
   sint (PageSize (clamp_params p)) \<le> 100"
  by (simp add: clamp_params_fields)

lemma unat_page_offset:
  assumes "1 \<le> sint (Page p)" "1 \<le> sint (PageSize p)"
    and "(sint (Page p) - 1) * sint (PageSize p) < 2 ^ 63"
  shows "unat (page_offset p) = (unat (Page p) - 1) * unat (PageSize p)"
    and "(unat (Page p) - 1) * unat (PageSize p) < 2 ^ 63"
proof -
  have a: "int (unat (Page p)) = sint (Page p)"
    using assms(1) by (intro unat_eq_sint_nonneg) simp
  have b: "int (unat (PageSize p)) = sint (PageSize p)"
    using assms(2) by (intro unat_eq_sint_nonneg) simp
  then have "Page p \<noteq> 0" using assms(1) by auto
  then have m: "unat (Page p - 1) = unat (Page p) - 1" by (simp add: unat_minus_one)
  have "1 \<le> unat (Page p)" using a assms(1) by linarith
  then have "int (unat (Page p) - 1) = int (unat (Page p)) - 1" by (simp only: of_nat_diff)
  then have "int ((unat (Page p) - 1) * unat (PageSize p)) = (sint (Page p) - 1) * sint (PageSize p)"
    by (simp only: of_nat_mult a b)
  with assms(3) have "int ((unat (Page p) - 1) * unat (PageSize p)) < 2 ^ 63" by linarith
  then show lt: "(unat (Page p) - 1) * unat (PageSize p) < 2 ^ 63"
    by (metis of_nat_less_iff of_nat_numeral of_nat_power)
  then have "unat (Page p - 1) * unat (PageSize p) < 2 ^ LENGTH(64)" by (simp add: m)
  then show "unat (page_offset p) = (unat (Page p) - 1) * unat (PageSize p)"
    by (simp add: page_offset_def unat_mult_lem [THEN iffD1] m)
qed

subsection \<open>The WHERE clause\<close>

lemma whereClause_nonempty:
  "s \<noteq> [] \<Longrightarrow> whereClause s = where_prefix @ [sql_quote] @ (s @ [sql_quote])"
  by (simp add: whereClause_def)

subsection \<open>Scanning and grouping\<close>

lemma scan_video_row_Some:
  "scan_video_row r = Some v \<Longrightarrow>
     ID v = id_col r \<and> Path v = path_col r \<and> Status v = status_col r \<and>
     OriginalSize v = original_size_col r"
  by (auto simp: scan_video_row_def split: option.splits)

lemma scan_video_row_None: "scan_video_row r = None \<longleftrightarrow> \<not> row_ok r"
  by (auto simp: scan_video_row_def row_ok_def split: option.splits)

lemma scan_video_row_Some_ok: "scan_video_row r = Some v \<Longrightarrow> row_ok r"
  by (auto simp: scan_video_row_def row_ok_def split: option.splits)

lemma scanVideoRows_Status: "map Status (scanVideoRows rs) = map status_col (filter row_ok rs)"
  by (induction rs) (auto dest: scan_video_row_Some scan_video_row_Some_ok simp: scan_video_row_None split: option.splits)

lemma scanVideoRows_Path: "map Path (scanVideoRows rs) = map path_col (filter row_ok rs)"
  by (induction rs) (auto dest: scan_video_row_Some scan_video_row_Some_ok simp: scan_video_row_None split: option.splits)

lemma filter_scanVideoRows:
  "filter (\<lambda>v. Status v = st) (scanVideoRows rs) =
     scanVideoRows (filter (\<lambda>r. status_col r = st) rs)"
  by (induction rs) (auto dest: scan_video_row_Some split: option.splits)

lemma foldl_group_step:
  "foldl group_step q vs =
     q\<lparr>Pending := Pending q @ filter (\<lambda>v. Status v = ''pending'') vs,
       Processing := Processing q @ filter (\<lambda>v. Status v = ''processing'') vs,
       Completed := Completed q @ filter (\<lambda>v. Status v = ''completed'') vs\<rparr>"
  by (induction vs arbitrary: q) (auto simp: group_step_def)


lemma length_filter_status_scan:
  "length (filter (\<lambda>v. Status v = st) (scanVideoRows rs)) =
     length (filter (\<lambda>r. row_ok r \<and> status_col r = st) rs)"
  by (induction rs) (auto dest: scan_video_row_Some scan_video_row_Some_ok
      simp: scan_video_row_None split: option.splits)

lemma length_filter_triad:
  "length (filter (\<lambda>r. P r \<and> status_col r = ''pending'') rs) +
   length (filter (\<lambda>r. P r \<and> status_col r = ''processing'') rs) +
   length (filter (\<lambda>r. P r \<and> status_col r = ''completed'') rs) =
   length (filter (\<lambda>r. P r \<and> triad_status (status_col r)) rs)"
  by (induction rs) (auto simp: triad_status_def)

lemma queue_items_group:
  "queue_items (group_videos t (scanVideoRows rs)) =
     length (filter (\<lambda>r. row_ok r \<and> triad_status (status_col r)) rs)"
  by (simp add: queue_items_def group_videos_def foldl_group_step length_filter_status_scan
      length_filter_triad)

subsection \<open>The success path of getQueue\<close>

lemma parse_where_whereClause:
  assumes "sql_quote \<notin> set s"
  shows "parse_where (whereClause s) = Some (filter_of s)"
proof (cases "s = []")
  case True
  then show ?thesis by (simp add: whereClause_def parse_where_def filter_of_def)
next
  case False
  from assms have "sql_literal_body [] (s @ [sql_quote]) = Some (s, [])"
    by (simp add: sql_literal_body_plain)
  with False show ?thesis
    by (simp add: whereClause_nonempty parse_where_literal filter_of_def)
qed

lemma parse_where_whereClause_quote:
  assumes "sql_quote \<in> set s"
  shows "parse_where (whereClause s) \<noteq> Some (Some s)"
proof
  assume eq: "parse_where (whereClause s) = Some (Some s)"
  from assms have "s \<noteq> []" by auto
  with eq have "sql_literal_body [] (s @ [sql_quote]) = Some (s, [])"
    by (auto simp: whereClause_nonempty parse_where_literal split: option.splits list.splits prod.splits)
  then have "count_list s sql_quote = 0"
    by (drule_tac sql_literal_body_length) simp
  with assms show False by (simp add: count_list_0_iff)
qed

lemma getQueue_reads_success:
  assumes "online d1" "online d2" "sql_quote \<notin> set (StatusFilter p0)"
    and "(sint (Page (clamp_params p0)) - 1) * sint (PageSize (clamp_params p0)) < 2 ^ 63"
  shows "getQueue_reads d1 d2 (Some p0) =
    Inr (group_videos (word_of_nat (length (selected_rows d1 (filter_of (StatusFilter p0)))))
           (scanVideoRows (page_window (clamp_params p0) (ordered_rows d2 (filter_of (StatusFilter p0))))),
         \<lparr>pg_page = Page (clamp_params p0), pg_pageSize = PageSize (clamp_params p0),
          pg_total = word_of_nat (length (selected_rows d1 (filter_of (StatusFilter p0)))),
          pg_pages = pages_count (word_of_nat (length (selected_rows d1 (filter_of (StatusFilter p0)))))
                       (PageSize (clamp_params p0))\<rparr>)"
proof -
  let ?p = "clamp_params p0"
  have b: "1 \<le> sint (Page ?p)" "1 \<le> sint (PageSize ?p)"
    using clamp_params_bounds [of p0] by simp_all
  note off = unat_page_offset [OF b assms(4)]
  have "sint (page_offset ?p) = int (unat (page_offset ?p))"
    using off by (simp add: sint_eq_unat_small)
  then have "0 \<le> sint (page_offset ?p)" by simp
  moreover have "parse_where (whereClause (StatusFilter ?p)) = Some (filter_of (StatusFilter p0))"
    using assms(3) by (simp add: clamp_params_fields parse_where_whereClause)
  ultimately show ?thesis
    using assms(1,2) b off(1)
    by (simp add: getQueue_reads_def count_query_def page_query_def page_window_def Let_def)
qed

lemma getQueue_success:
  assumes "online d" "sql_quote \<notin> set (StatusFilter p0)"
    and "(sint (Page (clamp_params p0)) - 1) * sint (PageSize (clamp_params p0)) < 2 ^ 63"
  shows "getQueue d (Some p0) =
    Inr (group_videos (word_of_nat (length (selected_rows d (filter_of (StatusFilter p0)))))
           (scanVideoRows (page_window (clamp_params p0) (ordered_rows d (filter_of (StatusFilter p0))))),
         \<lparr>pg_page = Page (clamp_params p0), pg_pageSize = PageSize (clamp_params p0),
          pg_total = word_of_nat (length (selected_rows d (filter_of (StatusFilter p0)))),
          pg_pages = pages_count (word_of_nat (length (selected_rows d (filter_of (StatusFilter p0)))))
                       (PageSize (clamp_params p0))\<rparr>)"
  using getQueue_reads_success [OF assms(1,1,2,3)] by (simp add: getQueue_def)

lemma clamp_params_valid:
  "1 \<le> sint (Page p) \<Longrightarrow> 1 \<le> sint (PageSize p) \<Longrightarrow> sint (PageSize p) \<le> 100 \<Longrightarrow>
     clamp_params p = p"
  by (simp add: clamp_params_def Let_def)

lemma pages_count_value:
  assumes "1 \<le> sint k" "sint k \<le> 100" "n < 2 ^ 62"
  shows "unat (pages_count (word_of_nat n) k) = (n + unat k - 1) div unat k"
proof -
  have K: "int (unat k) = sint k" using assms(1) by (intro unat_eq_sint_nonneg) simp
  then have K1: "1 \<le> unat k" "unat k \<le> 100" using assms(1,2) by linarith+
  have "word_of_nat n + k - 1 = (word_of_nat (n + unat k - 1) :: int64)"
    using K1 by (simp add: of_nat_diff)
  moreover have "n + unat k - 1 < 2 ^ 63" using assms(3) K1 by simp
  ultimately have T: "sint (word_of_nat n + k - 1) = int (n + unat k - 1)"
    by (simp add: sint_of_nat_small)
  have nn: "0 \<le> sint (word_of_nat n + k - 1)" using T by simp
  have "sint (pages_count (word_of_nat n) k) = sint (word_of_nat n + k - 1) div sint k"
    unfolding pages_count_def using nn assms(1) by (intro go_div_nonneg) simp_all
  also have "\<dots> = int (n + unat k - 1) div int (unat k)" by (simp only: T K [symmetric])
  also have "\<dots> = int ((n + unat k - 1) div unat k)" by (simp only: zdiv_int)
  finally have S: "sint (pages_count (word_of_nat n) k) = int ((n + unat k - 1) div unat k)" .
  then have "int (unat (pages_count (word_of_nat n) k)) = int ((n + unat k - 1) div unat k)"
    by (simp only: unat_eq_sint_nonneg [of "pages_count (word_of_nat n) k"] of_nat_0_le_iff)
  then show ?thesis by (simp only: of_nat_eq_iff)
qed

lemma getQueue_items_page:
  assumes "online d" "sql_quote \<notin> set s" "1 \<le> sint k" "sint k \<le> 100"
    and "1 \<le> i" "i < 2 ^ 62" "(i - 1) * unat k < 2 ^ 62"
    and "\<forall>r \<in> set (rows d). row_ok r \<and> triad_status (status_col r)"
  shows "(case getQueue d (Some \<lparr>Page = word_of_nat i, PageSize = k, StatusFilter = s\<rparr>) of
            Inl _ \<Rightarrow> 0 | Inr (q, _) \<Rightarrow> queue_items q) =
         length (take (unat k) (drop ((i - 1) * unat k) (ordered_rows d (filter_of s))))"
proof -
  let ?p = "\<lparr>Page = word_of_nat i, PageSize = k, StatusFilter = s\<rparr> :: pagination_params"
  have pg: "sint (word_of_nat i :: int64) = int i" using assms(6) by (simp add: sint_of_nat_small)
  have K: "int (unat k) = sint k" using assms(3) by (intro unat_eq_sint_nonneg) simp
  have c: "clamp_params ?p = ?p"
    using pg assms(3,4,5) by (intro clamp_params_valid) simp_all
  have e: "int ((i - 1) * unat k) = (int i - 1) * sint k"
    by (simp only: of_nat_mult of_nat_diff [OF assms(5)] of_nat_1 K)
  have "int ((i - 1) * unat k) < 2 ^ 62"
    using assms(7) by (metis of_nat_less_iff of_nat_numeral of_nat_power)
  then have "(int i - 1) * sint k < 2 ^ 62" by (simp only: e [symmetric])
  then have "(int i - 1) * sint k < 2 ^ 63" by (rule less_le_trans) simp
  then have ov: "(sint (Page ?p) - 1) * sint (PageSize ?p) < 2 ^ 63"
    by (simp only: pagination_params.select_convs pg)
  have u: "unat (word_of_nat i :: int64) = i" using assms(6) by (simp add: unat_of_nat take_bit_nat_eq_self)
  let ?w = "page_window ?p (ordered_rows d (filter_of s))"
  have "\<forall>r \<in> set ?w. row_ok r \<and> triad_status (status_col r)"
    using assms(8) by (auto simp: page_window_def ordered_rows_def selected_rows_def
        dest!: in_set_takeD in_set_dropD)
  then have "length (filter (\<lambda>r. row_ok r \<and> triad_status (status_col r)) ?w) = length ?w"
    by (simp add: filter_id_conv)
  with getQueue_success [of d ?p] assms(1,2) c ov show ?thesis
    by (simp add: queue_items_group page_window_def u)
qed

subsection \<open>Properties of getQueue\<close>

text \<open>
  C14. The status filter is spliced into the SQL text: the clause means
  \<open>status = s\<close> exactly when \<open>s\<close> has no quote. With a quote the text is read
  as another literal, or is no equality at all: SQL injection.
\<close>

theorem whereClause_roundtrip_iff:
  "parse_where (whereClause s) = Some (filter_of s) \<longleftrightarrow> sql_quote \<notin> set s"
proof
  assume "parse_where (whereClause s) = Some (filter_of s)"
  moreover have "s \<noteq> []" if "sql_quote \<in> set s" using that by auto
  ultimately show "sql_quote \<notin> set s"
    using parse_where_whereClause_quote [of s] by (auto simp: filter_of_def)
next
  assume "sql_quote \<notin> set s"
  then show "parse_where (whereClause s) = Some (filter_of s)"
    by (rule parse_where_whereClause)
qed


text \<open>
  C8. The buckets of one page: when the offset does not wrap, the page holds
  the rows ranked \<open>(Page - 1) * PageSize + 1\<close> to \<open>Page * PageSize\<close> in the
  order of the page query, and each bucket is the sub-list of them with its
  status, in that order, after the scan has dropped the rows it cannot read.
\<close>

theorem getQueue_page_buckets:
  assumes "online d" "sql_quote \<notin> set (StatusFilter p0)"
    and "(sint (Page (clamp_params p0)) - 1) * sint (PageSize (clamp_params p0)) < 2 ^ 63"
    and "getQueue d (Some p0) = Inr (q, pg)"
  shows "Pending q = scanVideoRows (filter (\<lambda>r. status_col r = ''pending'')
             (page_window (clamp_params p0) (ordered_rows d (filter_of (StatusFilter p0)))))
       \<and> Processing q = scanVideoRows (filter (\<lambda>r. status_col r = ''processing'')
             (page_window (clamp_params p0) (ordered_rows d (filter_of (StatusFilter p0)))))
       \<and> Completed q = scanVideoRows (filter (\<lambda>r. status_col r = ''completed'')
             (page_window (clamp_params p0) (ordered_rows d (filter_of (StatusFilter p0)))))
       \<and> Total q = word_of_nat (length (selected_rows d (filter_of (StatusFilter p0))))
       \<and> pg_page pg = Page (clamp_params p0) \<and> pg_pageSize pg = PageSize (clamp_params p0)"
  using getQueue_success [OF assms(1-3)] assms(4)
  by (simp add: group_videos_def foldl_group_step filter_scanVideoRows)

text \<open>
  C7. Pagination is exact: for a valid page size and a store whose rows all
  scan and carry one of the three statuses, \<open>pages\<close> is
  \<open>ceil(total / pageSize)\<close> and the items of the pages \<open>1 .. pages\<close>, each
  fetched by its own request on the same store, add up to \<open>total\<close>.
\<close>

theorem getQueue_pages_exact:
  assumes "online d" "sql_quote \<notin> set s" "1 \<le> sint k" "sint k \<le> 100"
    and "length (selected_rows d (filter_of s)) < 2 ^ 62"
    and "\<forall>r \<in> set (rows d). row_ok r \<and> triad_status (status_col r)"
  shows "unat (pages_count (word_of_nat (length (selected_rows d (filter_of s)))) k) =
           (length (selected_rows d (filter_of s)) + unat k - 1) div unat k
       \<and> (\<Sum>i \<leftarrow> [1..<Suc (unat (pages_count (word_of_nat (length (selected_rows d (filter_of s)))) k))].
            (case getQueue d (Some \<lparr>Page = word_of_nat i, PageSize = k, StatusFilter = s\<rparr>) of
               Inl _ \<Rightarrow> 0 | Inr (q, _) \<Rightarrow> queue_items q))
         = length (selected_rows d (filter_of s))"
proof -
  let ?n = "length (selected_rows d (filter_of s))"
  let ?xs = "ordered_rows d (filter_of s)"
  let ?K = "unat k"
  let ?P = "(?n + ?K - 1) div ?K"
  have P: "unat (pages_count (word_of_nat ?n) k) = ?P"
    using assms(3,4,5) by (rule pages_count_value)
  have K: "int ?K = sint k" using assms(3) by (intro unat_eq_sint_nonneg) simp
  then have K1: "0 < ?K" using assms(3) by linarith
  have page: "(case getQueue d (Some \<lparr>Page = word_of_nat i, PageSize = k, StatusFilter = s\<rparr>) of
                 Inl _ \<Rightarrow> 0 | Inr (q, _) \<Rightarrow> queue_items q) =
              length (take ?K (drop ((i - 1) * ?K) ?xs))"
    if "i \<in> set [1..<Suc ?P]" for i
  proof -
    from that have i: "1 \<le> i" "i \<le> ?P" by auto
    from page_index_bounds [OF K1 i assms(5)] have "(i - 1) * ?K < 2 ^ 62" "i < 2 ^ 62" by simp_all
    from getQueue_items_page [OF assms(1-4) i(1) this(2,1) assms(6)] show ?thesis .
  qed
  have sums: "(\<Sum>i \<leftarrow> [1..<Suc ?P]. length (take ?K (drop ((i - 1) * ?K) ?xs))) = ?n"
    using sum_pages_length [OF K1, of ?xs] by (simp add: length_ordered_rows)
  have eq: "map (\<lambda>i. case getQueue d (Some \<lparr>Page = word_of_nat i, PageSize = k, StatusFilter = s\<rparr>) of
                  Inl _ \<Rightarrow> 0 | Inr (q, _) \<Rightarrow> queue_items q) [1..<Suc ?P] =
            map (\<lambda>i. length (take ?K (drop ((i - 1) * ?K) ?xs))) [1..<Suc ?P]"
    by (rule map_cong [OF refl page])
  show ?thesis
    unfolding P
  proof
    show "?P = ?P" ..
    show "sum_list (map (\<lambda>i. case getQueue d (Some \<lparr>Page = word_of_nat i, PageSize = k, StatusFilter = s\<rparr>) of
              Inl _ \<Rightarrow> 0 | Inr (q, _) \<Rightarrow> queue_items q) [1..<Suc ?P]) = ?n"
      unfolding eq by (rule sums)
  qed
qed


text \<open>
  C15. The offset of a page is computed in 64-bit \<open>int\<close>: it is exactly
  \<open>(page - 1) * pageSize\<close> as long as that product is below \<open>2^63\<close>.
\<close>

theorem page_offset_exact:
  assumes "1 \<le> sint (Page p)" "1 \<le> sint (PageSize p)"
    and "(sint (Page p) - 1) * sint (PageSize p) < 2 ^ 63"
  shows "sint (page_offset p) = (sint (Page p) - 1) * sint (PageSize p)"
proof -
  note u = unat_page_offset [OF assms]
  have a: "int (unat (Page p)) = sint (Page p)"
    using assms(1) by (intro unat_eq_sint_nonneg) simp
  have b: "int (unat (PageSize p)) = sint (PageSize p)"
    using assms(2) by (intro unat_eq_sint_nonneg) simp
  have "1 \<le> unat (Page p)" using a assms(1) by linarith
  then have "int ((unat (Page p) - 1) * unat (PageSize p)) = (sint (Page p) - 1) * sint (PageSize p)"
    by (simp only: of_nat_mult of_nat_diff of_nat_1 a b)
  with u show ?thesis by (simp only: sint_eq_unat_small)
qed

text \<open>
  C16. Past that bound the offset wraps around: \<open>page = 2^62 + 1\<close> with
  \<open>pageSize = 4\<close> gives the offset \<open>2^64 = 0\<close>, so the handler answers with
  the rows of page 1 while it reports page \<open>2^62 + 1\<close>, whatever the store holds.
\<close>

theorem getQueue_offset_wraps:
  "getQueue d (Some \<lparr>Page = 2 ^ 62 + 1, PageSize = 4, StatusFilter = s\<rparr>) =
     map_sum id (\<lambda>(q, pg). (q, pg\<lparr>pg_page := 2 ^ 62 + 1\<rparr>))
       (getQueue d (Some \<lparr>Page = 1, PageSize = 4, StatusFilter = s\<rparr>))"
proof -
  have w: "((2 ^ 62 + 1 :: int64) - 1) * 4 = 0" by simp
  have c: "clamp_params \<lparr>Page = 2 ^ 62 + 1, PageSize = 4, StatusFilter = s\<rparr> =
             \<lparr>Page = 2 ^ 62 + 1, PageSize = 4, StatusFilter = s\<rparr>"
    by (simp add: clamp_params_def)
  have c1: "clamp_params \<lparr>Page = 1, PageSize = 4, StatusFilter = s\<rparr> =
              \<lparr>Page = 1, PageSize = 4, StatusFilter = s\<rparr>"
    by (simp add: clamp_params_def)
  show ?thesis
    by (simp only: getQueue_def getQueue_reads_def c c1 page_offset_def pagination_params.select_convs w Let_def
        option.case diff_self mult_zero_left) (simp split: sum.split)
qed

text \<open>
  C17. The bound parameters are clamped into range (\<open>page \<ge> 1\<close>,
  \<open>1 \<le> pageSize \<le> 100\<close>), and parameters already in range are kept as they are.
\<close>

theorem clamp_params_in_range:
  "1 \<le> sint (Page (clamp_params p)) \<and> 1 \<le> sint (PageSize (clamp_params p)) \<and>
   sint (PageSize (clamp_params p)) \<le> 100 \<and>
   (clamp_params p = p \<longleftrightarrow>
      1 \<le> sint (Page p) \<and> 1 \<le> sint (PageSize p) \<and> sint (PageSize p) \<le> 100)"
proof -
  have "clamp_params p = p \<Longrightarrow> 1 \<le> sint (Page p) \<and> 1 \<le> sint (PageSize p) \<and> sint (PageSize p) \<le> 100"
    using clamp_params_bounds [of p] by simp
  then show ?thesis
    using clamp_params_bounds [of p] clamp_params_valid [of p] by blast
qed

text \<open>
  C18. The grouping loop is the three status filters of its input, each in
  the input's order; the total is passed through.
\<close>

theorem group_videos_eq_filter:
  "group_videos t vs =
     \<lparr>Pending = filter (\<lambda>v. Status v = ''pending'') vs,
      Processing = filter (\<lambda>v. Status v = ''processing'') vs,
      Completed = filter (\<lambda>v. Status v = ''completed'') vs, Total = t\<rparr>"
  by (simp add: group_videos_def foldl_group_step)

text \<open>
  C19. The buckets of a page hold exactly the rows of its window that scan
  (no \<open>NULL\<close> resolution or bitrate) and carry one of the three statuses:
  any other row is counted in \<open>total\<close> and shown in no bucket.
\<close>

theorem getQueue_items_dropped:
  assumes "online d" "sql_quote \<notin> set (StatusFilter p0)"
    and "(sint (Page (clamp_params p0)) - 1) * sint (PageSize (clamp_params p0)) < 2 ^ 63"
    and "getQueue d (Some p0) = Inr (q, pg)"
  shows "queue_items q =
           length (filter (\<lambda>r. row_ok r \<and> triad_status (status_col r))
             (page_window (clamp_params p0) (ordered_rows d (filter_of (StatusFilter p0)))))
       \<and> Total q = word_of_nat (length (selected_rows d (filter_of (StatusFilter p0))))"
  using getQueue_success [OF assms(1-3)] assms(4)
  by (simp add: queue_items_group) (simp add: group_videos_def foldl_group_step)

end
