(* ===== verification/Cache.thy ===== *)
theory Cache
  imports Store
begin

text \<open>
  The membership cache \<open>processedPaths\<close> of \<open>main.go\<close>, a Go
  \<open>map[string]bool\<close>: its lookup (a missing key reads as \<open>false\<close>), its
  rebuild \<open>refreshProcessedPathsCache\<close> from \<open>SELECT path FROM videos\<close> (a
  failing query leaves it empty; a path column is \<open>NOT NULL TEXT\<close> and
  always scans), and the insertion \<open>addToQueue\<close> makes after a successful
  \<open>INSERT\<close>. Its abstraction is the set of paths it reports as processed; the
  lemmas show that each operation refines the matching set operation.
\<close>

type_synonym path_cache = "string \<rightharpoonup> bool"

text \<open>\<open>processedPaths[path]\<close>: the zero value \<open>false\<close> for a missing key.\<close>

definition cache_lookup :: "path_cache \<Rightarrow> string \<Rightarrow> bool" where
  "cache_lookup m p = (case m p of Some b \<Rightarrow> b | None \<Rightarrow> False)"

text \<open>The \<open>for rows.Next()\<close> loop: \<open>processedPaths[path] = true\<close> for each row.\<close>

fun cache_fill :: "path_cache \<Rightarrow> string list \<Rightarrow> path_cache" where
  "cache_fill m [] = m"
| "cache_fill m (p # ps) = cache_fill (m(p \<mapsto> True)) ps"

definition refreshProcessedPathsCache :: "db \<Rightarrow> path_cache" where
  "refreshProcessedPathsCache d =
     (case select_paths d of
       Inl _ \<Rightarrow> Map.empty
     | Inr ps \<Rightarrow> cache_fill Map.empty ps)"

text \<open>\<open>processedPaths[video.Path] = true\<close>.\<close>

definition cache_add :: "path_cache \<Rightarrow> string \<Rightarrow> path_cache" where
  "cache_add m p = m(p \<mapsto> True)"

text \<open>The abstraction: the paths the cache reports as processed, and the paths the store holds.\<close>

definition cached_paths :: "path_cache \<Rightarrow> string set" where
  "cached_paths m = {p. cache_lookup m p}"

definition stored_paths :: "db \<Rightarrow> string set" where
  "stored_paths d = path_col ` set (rows d)"

lemma cache_lookup_fill:
  "cache_lookup (cache_fill m ps) p \<longleftrightarrow> p \<in> set ps \<or> cache_lookup m p"
  by (induction ps arbitrary: m) (auto simp: cache_lookup_def)

lemma cache_lookup_empty [simp]: "\<not> cache_lookup Map.empty p"
  by (simp add: cache_lookup_def)

lemma cache_lookup_refresh:
  "cache_lookup (refreshProcessedPathsCache d) p \<longleftrightarrow> online d \<and> p \<in> stored_paths d"
  by (auto simp: refreshProcessedPathsCache_def select_paths_def cache_lookup_fill
      stored_paths_def)

lemma cache_lookup_add [simp]:
  "cache_lookup (cache_add m q) p \<longleftrightarrow> p = q \<or> cache_lookup m p"
  by (simp add: cache_add_def cache_lookup_def)

lemma cached_paths_add [simp]: "cached_paths (cache_add m p) = insert p (cached_paths m)"
  by (auto simp: cached_paths_def)

lemma stored_paths_insert:
  "insert_query d r = Inr d' \<Longrightarrow> stored_paths d' = insert (path_col r) (stored_paths d)"
  by (simp add: insert_query_Inr stored_paths_def)

lemma stored_paths_update:
  "update_query d s i = Inr (d', n) \<Longrightarrow> stored_paths d' = stored_paths d"
  by (simp add: update_query_Inr stored_paths_def image_comp)

text \<open>
  C3. The rebuild and the insertion refine the set operations: after
  \<open>refreshProcessedPathsCache\<close> the cache reports exactly the stored paths when
  the query succeeds and nothing when it fails (it fails open, towards
  re-discovery), and \<open>cache_add\<close> inserts one path.
\<close>

theorem cache_refines_set:
  "cached_paths (refreshProcessedPathsCache d) = (if online d then stored_paths d else {})
   \<and> cached_paths (cache_add m p) = insert p (cached_paths m)"
  by (auto simp: cached_paths_def cache_lookup_refresh)

end
