(* ===== verification/Discovery.thy ===== *)
theory Discovery
  imports Cache
begin

text \<open>
  Discovery, \<open>getUnprocessedVideos\<close> and \<open>getFileSize\<close> of \<open>main.go\<close>,
  with the parts of Go's \<open>path/filepath\<close> and \<open>os\<close> they call.
  The file system is a tree: a non-directory entry carries what \<open>os.Stat\<close>
  returns for its size (\<open>None\<close> when the call fails); a directory holds its
  entries in the order the file system lists them, and the walk sorts their
  names as \<open>readDirNames\<close> does (\<open>sort.Strings\<close>, bytewise); an entry whose \<open>lstat\<close> or directory read fails carries the error.
  \<open>filepath.Walk\<close> visits the root, then each entry of a directory in name order,
  and stops at the first error the callback returns; the callback of
  \<open>getUnprocessedVideos\<close> returns every error it is given and collects the
  non-directories whose extension is \<open>.mp4\<close>.
\<close>

datatype fnode =
    FFile "int64 option"
  | FDir "(string \<times> fnode) list"
  | FError string

subsection \<open>path/filepath\<close>

text \<open>\<open>filepath.Ext\<close>: scan from the end to the last separator; the suffix from the last dot.\<close>

fun ext_scan :: "string \<Rightarrow> string \<Rightarrow> string" where
  "ext_scan [] acc = []"
| "ext_scan (c # cs) acc =
     (if c = CHR ''/'' then [] else if c = CHR ''.'' then c # acc else ext_scan cs (c # acc))"

definition filepath_Ext :: "string \<Rightarrow> string" where
  "filepath_Ext p = ext_scan (rev p) []"

text \<open>\<open>filepath.Base\<close>: the last element after trailing separators are removed.\<close>

definition filepath_Base :: "string \<Rightarrow> string" where
  "filepath_Base p =
     (if p = [] then ''.''
      else let q = rev (dropWhile (\<lambda>c. c = CHR ''/'') (rev p));
               b = rev (takeWhile (\<lambda>c. c \<noteq> CHR ''/'') (rev q))
           in if b = [] then ''/'' else b)"

text \<open>
  \<open>filepath.Join(dir, name)\<close> is \<open>Clean(dir + "/" + name)\<close>. The walk joins
  the root \<open>./videos\<close> or an already clean path with an entry name, which is
  never empty, never \<open>.\<close> or \<open>..\<close> and has no separator; on such input
  \<open>Clean\<close> only drops a leading \<open>./\<close>.
\<close>

fun strip_dot_slash :: "string \<Rightarrow> string" where
  "strip_dot_slash (c1 # c2 # r) =
     (if c1 = CHR ''.'' \<and> c2 = CHR ''/'' then r else c1 # c2 # r)"
| "strip_dot_slash s = s"

definition filepath_Join :: "string \<Rightarrow> string \<Rightarrow> string" where
  "filepath_Join d n = strip_dot_slash (d @ ''/'' @ n)"

subsection \<open>os.Stat and getFileSize\<close>

fun split_slash :: "string \<Rightarrow> string \<Rightarrow> string list" where
  "split_slash acc [] = [rev acc]"
| "split_slash acc (c # cs) =
     (if c = CHR ''/'' then rev acc # split_slash [] cs else split_slash (c # acc) cs)"

text \<open>Path resolution relative to the working directory: empty and \<open>.\<close> elements name no step.\<close>

definition path_components :: "string \<Rightarrow> string list" where
  "path_components p = filter (\<lambda>c. c \<noteq> [] \<and> c \<noteq> ''.'') (split_slash [] p)"

fun fs_lookup :: "fnode \<Rightarrow> string list \<Rightarrow> fnode option"
  and entries_lookup :: "(string \<times> fnode) list \<Rightarrow> string \<Rightarrow> string list \<Rightarrow> fnode option" where
  "fs_lookup t [] = Some t"
| "fs_lookup (FDir es) (n # ns) = entries_lookup es n ns"
| "fs_lookup (FFile s) (n # ns) = None"
| "fs_lookup (FError e) (n # ns) = None"
| "entries_lookup [] n ns = None"
| "entries_lookup ((m, c) # es) n ns = (if m = n then fs_lookup c ns else entries_lookup es n ns)"

text \<open>\<open>os.Stat(path)\<close>, read for its size. The walk only hands non-directories to \<open>getFileSize\<close>.\<close>

definition os_Stat :: "fnode \<Rightarrow> string \<Rightarrow> int64 option" where
  "os_Stat cwd p = (case fs_lookup cwd (path_components p) of Some (FFile s) \<Rightarrow> s | _ \<Rightarrow> None)"

definition getFileSize :: "fnode \<Rightarrow> string \<Rightarrow> int64" where
  "getFileSize cwd p = (case os_Stat cwd p of Some s \<Rightarrow> s | None \<Rightarrow> 0)"

subsection \<open>The walk\<close>

text \<open>The callback's collecting branch: \<open>!info.IsDir() && filepath.Ext(path) == ".mp4"\<close>.\<close>

definition walk_visit :: "string \<Rightarrow> fnode \<Rightarrow> string list" where
  "walk_visit p t =
     (case t of FFile _ \<Rightarrow> if filepath_Ext p = ''.mp4'' then [p] else [] | _ \<Rightarrow> [])"

text \<open>The weight of a node, or of a list of entries, that decreases along the walk.\<close>

definition walk_measure :: "string \<times> fnode + string \<times> (string \<times> fnode) list \<Rightarrow> nat" where
  "walk_measure x =
     (case x of Inl (p, t) \<Rightarrow> size t | Inr (d, es) \<Rightarrow> size_list (size_prod (\<lambda>_. 0) size) es)"

text \<open>
  \<open>filepath.Walk\<close>: the callback's branch for the node at \<open>p\<close>, then, for a
  directory, the walk of its entries in the order of their names
  (\<open>readDirNames\<close> sorts them), stopping at the first error. It
  terminates because the entries of a directory weigh less than the
  directory, in any order.
\<close>

function walk_node :: "string \<Rightarrow> fnode \<Rightarrow> string + string list"
  and walk_entries :: "string \<Rightarrow> (string \<times> fnode) list \<Rightarrow> string + string list" where
  "walk_node p (FError e) = Inl e"
| "walk_node p (FFile s) = Inr (walk_visit p (FFile s))"
| "walk_node p (FDir es) = walk_entries p (sort_key fst es)"
| "walk_entries d [] = Inr []"
| "walk_entries d ((n, c) # es) =
     (case walk_node (filepath_Join d n) c of
       Inl e \<Rightarrow> Inl e
     | Inr ps \<Rightarrow> (case walk_entries d es of Inl e \<Rightarrow> Inl e | Inr qs \<Rightarrow> Inr (ps @ qs)))"
  by pat_completeness auto

termination
  by (relation "measure walk_measure")
     (auto simp: walk_measure_def size_list_conv_sum_list sum_mset_sum_list [symmetric] mset_map)

definition videosDir :: string where
  "videosDir = ''./videos''"

text \<open>\<open>filepath.Walk(videosDir, ...)\<close>: a missing root is the \<open>lstat\<close> error the callback returns.\<close>

definition walk_videos :: "fnode \<Rightarrow> string + string list" where
  "walk_videos cwd =
     (case fs_lookup cwd (path_components videosDir) of
       None \<Rightarrow> Inl (''lstat '' @ videosDir @ '': no such file or directory'')
     | Some t \<Rightarrow> walk_node videosDir t)"

subsection \<open>The handler\<close>

definition unprocessed_video :: "fnode \<Rightarrow> string \<Rightarrow> video" where
  "unprocessed_video cwd p =
     \<lparr>ID = filepath_Base p, Path = p, Resolution = [], Bitrate = [],
      Status = ''unprocessed'', OriginalSize = getFileSize cwd p\<rparr>"

text \<open>The loop \<open>for _, path := range videoPaths { if !processedPaths[path] { ... } }\<close>.\<close>

fun collect_unprocessed :: "fnode \<Rightarrow> path_cache \<Rightarrow> string list \<Rightarrow> video list" where
  "collect_unprocessed cwd m [] = []"
| "collect_unprocessed cwd m (p # ps) =
     (if \<not> cache_lookup m p then unprocessed_video cwd p # collect_unprocessed cwd m ps
      else collect_unprocessed cwd m ps)"

definition getUnprocessedVideos :: "fnode \<Rightarrow> path_cache \<Rightarrow> handler_error + video list" where
  "getUnprocessedVideos cwd m =
     (case walk_videos cwd of
       Inl e \<Rightarrow> Inl (WalkError e)
     | Inr ps \<Rightarrow> Inr (collect_unprocessed cwd m ps))"


subsection \<open>Analysis\<close>

text \<open>Whether a tree holds an entry whose \<open>lstat\<close> or directory read fails.\<close>

fun fs_has_error :: "fnode \<Rightarrow> bool"
  and entries_have_error :: "(string \<times> fnode) list \<Rightarrow> bool" where
  "fs_has_error (FError e) = True"
| "fs_has_error (FFile s) = False"
| "fs_has_error (FDir es) = entries_have_error es"
| "entries_have_error [] = False"
| "entries_have_error ((n, c) # es) = (fs_has_error c \<or> entries_have_error es)"

text \<open>A directory entry name as \<open>readdir\<close> returns it, and a tree whose directories list each name once.\<close>

definition name_ok :: "string \<Rightarrow> bool" where
  "name_ok n \<longleftrightarrow> n \<noteq> [] \<and> n \<noteq> ''.'' \<and> n \<noteq> ''..'' \<and> CHR ''/'' \<notin> set n"

fun fs_wf :: "fnode \<Rightarrow> bool"
  and entries_wf :: "(string \<times> fnode) list \<Rightarrow> bool" where
  "fs_wf (FError e) = True"
| "fs_wf (FFile s) = True"
| "fs_wf (FDir es) = entries_wf es"
| "entries_wf [] = True"
| "entries_wf ((n, c) # es) = (name_ok n \<and> n \<notin> fst ` set es \<and> fs_wf c \<and> entries_wf es)"

lemma ext_scan_Cons:
  "ext_scan cs acc = r \<Longrightarrow> r \<noteq> [] \<Longrightarrow>
     \<exists>u rest. cs = u @ CHR ''.'' # rest \<and> r = CHR ''.'' # rev u @ acc"
proof (induction cs arbitrary: acc)
  case Nil
  then show ?case by simp
next
  case (Cons c cs)
  show ?case
  proof (cases "c = CHR ''/''")
    case True
    with Cons.prems show ?thesis by simp
  next
    case False
    show ?thesis
    proof (cases "c = CHR ''.''")
      case True
      with Cons.prems show ?thesis by auto
    next
      case nd: False
      with False Cons.prems have "ext_scan cs (c # acc) = r" by simp
      from Cons.IH [OF this Cons.prems(2)] obtain u rest
        where "cs = u @ CHR ''.'' # rest" "r = CHR ''.'' # rev u @ c # acc" by blast
      then show ?thesis by (intro exI [where x = "c # u"] exI [where x = rest]) simp
    qed
  qed
qed

lemma ext_scan_mp4: "ext_scan (''4pm.'' @ cs) acc = ''.mp4'' @ acc"
  by simp

text \<open>\<open>filepath.Ext\<close> is \<open>.mp4\<close> exactly for the paths that end in \<open>.mp4\<close>.\<close>

lemma filepath_Ext_mp4_iff: "filepath_Ext p = ''.mp4'' \<longleftrightarrow> (\<exists>pre. p = pre @ ''.mp4'')"
proof
  assume e: "filepath_Ext p = ''.mp4''"
  then obtain u rest where u: "rev p = u @ CHR ''.'' # rest" "''.mp4'' = CHR ''.'' # rev u @ []"
    using ext_scan_Cons [of "rev p" "[]" "''.mp4''"] unfolding filepath_Ext_def by blast
  from u(2) have "rev u = ''mp4''" by simp
  moreover have "p = rev (u @ CHR ''.'' # rest)" using u(1) by (metis rev_rev_ident)
  ultimately have "p = rev rest @ ''.mp4''" by simp
  then show "\<exists>pre. p = pre @ ''.mp4''" ..
next
  assume "\<exists>pre. p = pre @ ''.mp4''"
  then obtain pre where "p = pre @ ''.mp4''" ..
  then have "rev p = ''4pm.'' @ rev pre" by simp
  then show "filepath_Ext p = ''.mp4''" unfolding filepath_Ext_def using ext_scan_mp4 [of "rev pre" "[]"] by simp
qed

lemma entries_have_error_iff:
  "entries_have_error es \<longleftrightarrow> (\<exists>x \<in> set es. fs_has_error (snd x))"
  by (induction es) auto

lemma walk_error_iff:
  "isl (walk_node d t) \<longleftrightarrow> fs_has_error t"
  "isl (walk_entries d es) \<longleftrightarrow> entries_have_error es"
  by (induction d t and d es rule: walk_node_walk_entries.induct)
    (fastforce simp: entries_have_error_iff split: sum.splits)+

lemma walk_ext:
  "walk_node d t = Inr ps \<Longrightarrow> p \<in> set ps \<Longrightarrow> filepath_Ext p = ''.mp4''"
  "walk_entries d es = Inr ps \<Longrightarrow> p \<in> set ps \<Longrightarrow> filepath_Ext p = ''.mp4''"
  by (induction d t and d es arbitrary: ps and ps rule: walk_node_walk_entries.induct)
    (auto simp: walk_visit_def split: sum.splits if_splits)

lemma collect_unprocessed_eq:
  "collect_unprocessed cwd m ps = map (unprocessed_video cwd) (filter (\<lambda>p. \<not> cache_lookup m p) ps)"
  by (induction ps) auto


subsection \<open>Paths the walk builds and the paths os.Stat resolves\<close>

lemma split_slash_append_slash:
  "split_slash acc (xs @ CHR ''/'' # ys) = split_slash acc xs @ split_slash [] ys"
  by (induction xs arbitrary: acc) auto

lemma split_slash_no_slash:
  "CHR ''/'' \<notin> set n \<Longrightarrow> split_slash acc n = [rev acc @ n]"
  by (induction n arbitrary: acc) auto

lemma path_components_strip: "path_components (strip_dot_slash s) = path_components s"
proof (cases s rule: strip_dot_slash.cases)
  case (1 c1 c2 r)
  then show ?thesis by (auto simp: path_components_def)
qed simp_all

lemma path_components_Join:
  assumes "name_ok n"
  shows "path_components (filepath_Join d n) = path_components d @ [n]"
proof -
  have "path_components (filepath_Join d n) = path_components (d @ CHR ''/'' # n)"
    by (simp add: filepath_Join_def path_components_strip)
  also have "\<dots> = path_components d @ [n]"
    using assms by (simp add: path_components_def split_slash_append_slash
        split_slash_no_slash name_ok_def)
  finally show ?thesis .
qed

lemma path_components_foldl_Join:
  "\<forall>n \<in> set cs. name_ok n \<Longrightarrow> path_components (foldl filepath_Join d cs) = path_components d @ cs"
  by (induction cs arbitrary: d) (auto simp: path_components_Join)

lemma fs_lookup_append:
  "fs_lookup t (xs @ ys) = (case fs_lookup t xs of None \<Rightarrow> None | Some t' \<Rightarrow> fs_lookup t' ys)"
  "entries_lookup es n (xs @ ys) =
     (case entries_lookup es n xs of None \<Rightarrow> None | Some t' \<Rightarrow> fs_lookup t' ys)"
  by (induction t xs and es n xs rule: fs_lookup_entries_lookup.induct) auto

lemma entries_wf_iff:
  "entries_wf es \<longleftrightarrow> distinct (map fst es) \<and> (\<forall>x \<in> set es. name_ok (fst x) \<and> fs_wf (snd x))"
  by (induction es) fastforce+

lemma entries_lookup_mem:
  "distinct (map fst es) \<Longrightarrow> (n, c) \<in> set es \<Longrightarrow> entries_lookup es n cs = fs_lookup c cs"
  by (induction es) (auto simp: rev_image_eqI)

lemma entries_lookup_SomeD:
  "entries_lookup es n cs = Some x \<Longrightarrow> \<exists>c. (n, c) \<in> set es \<and> fs_lookup c cs = Some x"
  by (induction es) (auto split: if_splits)

lemma walk_sound:
  "walk_node d t = Inr ps \<Longrightarrow> p \<in> set ps \<Longrightarrow> fs_wf t \<Longrightarrow>
     \<exists>cs s. (\<forall>n \<in> set cs. name_ok n) \<and> fs_lookup t cs = Some (FFile s) \<and>
       p = foldl filepath_Join d cs"
  "walk_entries d es = Inr ps \<Longrightarrow> p \<in> set ps \<Longrightarrow>
     \<forall>x \<in> set es. name_ok (fst x) \<and> fs_wf (snd x) \<Longrightarrow>
     \<exists>n c cs s. (n, c) \<in> set es \<and> name_ok n \<and> (\<forall>n \<in> set cs. name_ok n) \<and>
       fs_lookup c cs = Some (FFile s) \<and> p = foldl filepath_Join (filepath_Join d n) cs"
proof (induction d t and d es arbitrary: ps and ps rule: walk_node_walk_entries.induct)
  case (2 p' s)
  then show ?case by (intro exI [where x = "[]"]) (auto simp: walk_visit_def split: if_splits)
next
  case (5 d m c es)
  from "5.prems"(1) obtain ps1 ps2 where w1: "walk_node (filepath_Join d m) c = Inr ps1"
    and w2: "walk_entries d es = Inr ps2" and ps: "ps = ps1 @ ps2"
    by (auto split: sum.splits)
  have wf: "name_ok m" "fs_wf c" "\<forall>x \<in> set es. name_ok (fst x) \<and> fs_wf (snd x)"
    using "5.prems"(3) by simp_all
  show ?case
  proof (cases "p \<in> set ps1")
    case True
    from "5.IH"(1) [OF w1 True wf(2)] obtain cs s where
      "\<forall>n \<in> set cs. name_ok n" "fs_lookup c cs = Some (FFile s)"
      "p = foldl filepath_Join (filepath_Join d m) cs" by blast
    with wf(1) show ?thesis by (intro exI [where x = m]) auto
  next
    case False
    with ps "5.prems"(2) have "p \<in> set ps2" by simp
    from "5.IH"(2) [OF w1 w2 this wf(3)] show ?thesis by auto
  qed
next
  case (3 p' es)
  from "3.prems"(3) have d: "distinct (map fst es)"
    and wf: "\<forall>x \<in> set (sort_key fst es). name_ok (fst x) \<and> fs_wf (snd x)"
    by (simp_all add: entries_wf_iff)
  from "3.prems"(1) have "walk_entries p' (sort_key fst es) = Inr ps" by simp
  from "3.IH" [OF this "3.prems"(2) wf] obtain n c cs s where
    "(n, c) \<in> set es" "name_ok n" "\<forall>n \<in> set cs. name_ok n" "fs_lookup c cs = Some (FFile s)"
    "p = foldl filepath_Join (filepath_Join p' n) cs" by auto
  with entries_lookup_mem [OF d] show ?case by (intro exI [where x = "n # cs"]) auto
qed auto

lemma walk_complete:
  "walk_node d t = Inr ps \<Longrightarrow> fs_lookup t cs = Some (FFile s) \<Longrightarrow>
     filepath_Ext (foldl filepath_Join d cs) = ''.mp4'' \<Longrightarrow> foldl filepath_Join d cs \<in> set ps"
  "walk_entries d es = Inr ps \<Longrightarrow> (n, c) \<in> set es \<Longrightarrow> fs_lookup c cs = Some (FFile s) \<Longrightarrow>
     filepath_Ext (foldl filepath_Join (filepath_Join d n) cs) = ''.mp4'' \<Longrightarrow>
     foldl filepath_Join (filepath_Join d n) cs \<in> set ps"
proof (induction d t and d es arbitrary: ps cs and ps n c cs rule: walk_node_walk_entries.induct)
  case (2 p' s')
  then show ?case by (cases cs) (auto simp: walk_visit_def)
next
  case (3 p' es)
  then obtain n cs' where cs: "cs = n # cs'" by (cases cs) auto
  with "3.prems"(2) obtain c where "(n, c) \<in> set es" "fs_lookup c cs' = Some (FFile s)"
    by (auto dest: entries_lookup_SomeD)
  with "3.IH" [of ps n c cs'] "3.prems"(1,3) cs show ?case by simp
next
  case (5 d m c0 es)
  from "5.prems"(1) obtain ps1 ps2 where w1: "walk_node (filepath_Join d m) c0 = Inr ps1"
    and w2: "walk_entries d es = Inr ps2" and ps: "ps = ps1 @ ps2"
    by (auto split: sum.splits)
  show ?case
  proof (cases "(n, c) = (m, c0)")
    case True
    with "5.IH"(1) [OF w1] "5.prems"(3,4) ps show ?thesis by simp
  next
    case False
    with "5.prems"(2) have "(n, c) \<in> set es" by auto
    from "5.IH"(2) [OF w1 w2 this "5.prems"(3,4)] ps show ?thesis by simp
  qed
qed (auto elim: fs_lookup.elims)

lemma getFileSize_walked:
  assumes "fs_lookup cwd (path_components videosDir) = Some t"
    and "\<forall>n \<in> set cs. name_ok n" "fs_lookup t cs = Some (FFile s)"
  shows "getFileSize cwd (foldl filepath_Join videosDir cs) = (case s of Some n \<Rightarrow> n | None \<Rightarrow> 0)"
  using assms by (simp add: getFileSize_def os_Stat_def path_components_foldl_Join fs_lookup_append
      split: option.splits)

lemma fs_lookup_names_ok:
  "fs_wf t \<Longrightarrow> fs_lookup t cs = Some x \<Longrightarrow> \<forall>n \<in> set cs. name_ok n"
  "entries_wf es \<Longrightarrow> entries_lookup es n cs = Some x \<Longrightarrow> name_ok n \<and> (\<forall>n \<in> set cs. name_ok n)"
  by (induction t cs and es n cs rule: fs_lookup_entries_lookup.induct) (auto split: if_splits)

lemma getUnprocessedVideos_not_cached:
  "getUnprocessedVideos cwd m = Inr vs \<Longrightarrow> v \<in> set vs \<Longrightarrow> \<not> cache_lookup m (Path v)"
  by (auto simp: getUnprocessedVideos_def collect_unprocessed_eq unprocessed_video_def
      split: sum.splits)

subsection \<open>Properties of discovery\<close>

text \<open>
  C12. Discovery is exact on a well-formed tree without I/O errors: the
  handler succeeds, and a path is reported if and only if it names a
  non-directory under \<open>./videos\<close> whose extension is \<open>.mp4\<close> and the cache
  does not hold it; each reported video is \<open>unprocessed\<close>, has the base name
  of its path as id, and the size \<open>os.Stat\<close> gives for that file (0 when
  \<open>Stat\<close> fails).
\<close>

theorem getUnprocessedVideos_exact:
  assumes "fs_lookup cwd (path_components videosDir) = Some t" "fs_wf t" "\<not> fs_has_error t"
  shows "\<exists>vs. getUnprocessedVideos cwd m = Inr vs
     \<and> (\<forall>p. p \<in> Path ` set vs \<longleftrightarrow>
          (\<exists>cs s. fs_lookup t cs = Some (FFile s) \<and> p = foldl filepath_Join videosDir cs \<and>
                  filepath_Ext p = ''.mp4'' \<and> \<not> cache_lookup m p))
     \<and> (\<forall>v \<in> set vs. Status v = ''unprocessed'' \<and> ID v = filepath_Base (Path v) \<and>
          (\<exists>cs s. fs_lookup t cs = Some (FFile s) \<and> Path v = foldl filepath_Join videosDir cs \<and>
                  OriginalSize v = (case s of Some n \<Rightarrow> n | None \<Rightarrow> 0)))"
proof -
  obtain ps where w: "walk_node videosDir t = Inr ps"
    using walk_error_iff(1) [of videosDir t] assms(3) by (cases "walk_node videosDir t") auto
  then have g: "getUnprocessedVideos cwd m =
                  Inr (map (unprocessed_video cwd) (filter (\<lambda>p. \<not> cache_lookup m p) ps))"
    using assms(1) by (simp add: getUnprocessedVideos_def walk_videos_def collect_unprocessed_eq)
  have paths: "p \<in> Path ` set (map (unprocessed_video cwd) (filter (\<lambda>p. \<not> cache_lookup m p) ps)) \<longleftrightarrow>
      (\<exists>cs s. fs_lookup t cs = Some (FFile s) \<and> p = foldl filepath_Join videosDir cs \<and>
              filepath_Ext p = ''.mp4'' \<and> \<not> cache_lookup m p)" for p
  proof
    assume "p \<in> Path ` set (map (unprocessed_video cwd) (filter (\<lambda>p. \<not> cache_lookup m p) ps))"
    then have p: "p \<in> set ps" "\<not> cache_lookup m p" by (auto simp: unprocessed_video_def)
    from walk_sound(1) [OF w p(1) assms(2)] walk_ext(1) [OF w p(1)] p(2) show "\<exists>cs s. fs_lookup t cs = Some (FFile s) \<and> p = foldl filepath_Join videosDir cs \<and>
              filepath_Ext p = ''.mp4'' \<and> \<not> cache_lookup m p" by blast
  next
    assume "\<exists>cs s. fs_lookup t cs = Some (FFile s) \<and> p = foldl filepath_Join videosDir cs \<and>
              filepath_Ext p = ''.mp4'' \<and> \<not> cache_lookup m p"
    with walk_complete(1) [OF w] show "p \<in> Path ` set (map (unprocessed_video cwd) (filter (\<lambda>p. \<not> cache_lookup m p) ps))"
      by (force simp: unprocessed_video_def)
  qed
  have each: "Status v = ''unprocessed'' \<and> ID v = filepath_Base (Path v) \<and>
          (\<exists>cs s. fs_lookup t cs = Some (FFile s) \<and> Path v = foldl filepath_Join videosDir cs \<and>
                  OriginalSize v = (case s of Some n \<Rightarrow> n | None \<Rightarrow> 0))"
    if "v \<in> set (map (unprocessed_video cwd) (filter (\<lambda>p. \<not> cache_lookup m p) ps))" for v
  proof -
    from that obtain p where p: "p \<in> set ps" "v = unprocessed_video cwd p" by auto
    from walk_sound(1) [OF w p(1) assms(2)] obtain cs s where
      cs: "\<forall>n \<in> set cs. name_ok n" "fs_lookup t cs = Some (FFile s)" "p = foldl filepath_Join videosDir cs"
      by blast
    with assms(1) have "getFileSize cwd p = (case s of Some n \<Rightarrow> n | None \<Rightarrow> 0)"
      by (simp add: getFileSize_walked)
    with cs p(2) show ?thesis by (auto simp: unprocessed_video_def)
  qed
  from g paths each show ?thesis by blast
qed

text \<open>
  C13. A file-system error anywhere under \<open>./videos\<close>, or a missing
  \<open>./videos\<close>, fails the whole request with the walk's error: no partial
  list is ever returned.
\<close>

theorem getUnprocessedVideos_error_iff:
  "isl (getUnprocessedVideos cwd m) \<longleftrightarrow>
     (case fs_lookup cwd (path_components videosDir) of None \<Rightarrow> True | Some t \<Rightarrow> fs_has_error t)"
  by (auto simp: getUnprocessedVideos_def walk_videos_def walk_error_iff(1) [of videosDir, symmetric]
      split: option.splits sum.splits)

text \<open>
  C25. The walk collects a regular file exactly when its path ends in
  \<open>.mp4\<close>, compared case-sensitively: \<open>a.MP4\<close> and \<open>a.mp4.bak\<close> are
  skipped, a file named \<open>.mp4\<close> is taken.
\<close>

theorem walk_file_collected:
  "walk_node p (FFile s) = Inr (if \<exists>pre. p = pre @ ''.mp4'' then [p] else [])"
  by (simp add: walk_visit_def filepath_Ext_mp4_iff)

end
