(* ===== verification/Handlers.thy ===== *)
theory Handlers
  imports QueueView Discovery
begin

text \<open>
  The write handlers of \<open>main.go\<close> and the server they share: the state is
  the store and the process-wide cache \<open>processedPaths\<close>; \<open>addToQueue\<close>
  inserts a row with status \<open>pending\<close> and then adds the path to the cache;
  \<open>updateVideoStatus\<close> overwrites the status of the rows with the given id;
  \<open>initDB\<close> ends by rebuilding the cache; \<open>main\<close> routes four requests to
  the handlers. A request is handled here as one step; the interleaving of
  concurrent requests is the subject of \<open>Interleaving\<close>.
\<close>

record server =
  srv_db :: db
  processedPaths :: path_cache

text \<open>The row \<open>INSERT INTO videos\<close> writes: the caller's fields, status forced to \<open>pending\<close>.\<close>

definition row_of_video :: "video \<Rightarrow> video_row" where
  "row_of_video v =
     \<lparr>id_col = ID v, path_col = Path v, resolution_col = Some (Resolution v),
      bitrate_col = Some (Bitrate v), status_col = ''pending'', original_size_col = OriginalSize v\<rparr>"

text \<open>
  The second effect of \<open>addToQueue\<close>, once its \<open>INSERT\<close> has succeeded:
  \<open>processedPaths[video.Path] = true\<close>.
\<close>

definition addToQueue_cache :: "server \<Rightarrow> video \<Rightarrow> server" where
  "addToQueue_cache s v = s\<lparr>processedPaths := cache_add (processedPaths s) (Path v)\<rparr>"

text \<open>
  \<open>bound\<close> is the result of \<open>c.ShouldBindJSON\<close>. On success the handler
  answers with the video it was sent, not with the row it stored.
\<close>

definition addToQueue :: "server \<Rightarrow> video option \<Rightarrow> (handler_error + video) \<times> server" where
  "addToQueue s bound =
     (case bound of
       None \<Rightarrow> (Inl BadRequest, s)
     | Some v \<Rightarrow>
         (case insert_query (srv_db s) (row_of_video v) of
           Inl e \<Rightarrow> (Inl (ServerError e), s)
         | Inr d' \<Rightarrow> (Inr v, addToQueue_cache (s\<lparr>srv_db := d'\<rparr>) v)))"

text \<open>\<open>id\<close> is the URL parameter, \<open>body\<close> the bound \<open>{status}\<close> object; the number of rows the update affects is ignored.\<close>

definition updateVideoStatus :: "server \<Rightarrow> string \<Rightarrow> string option \<Rightarrow> (handler_error + unit) \<times> server" where
  "updateVideoStatus s i body =
     (case body of
       None \<Rightarrow> (Inl BadRequest, s)
     | Some st \<Rightarrow>
         (case update_query (srv_db s) st i of
           Inl e \<Rightarrow> (Inl (ServerError e), s)
         | Inr (d', _) \<Rightarrow> (Inr (), s\<lparr>srv_db := d'\<rparr>)))"

text \<open>The state \<open>initDB\<close> leaves: the connected store and the rebuilt cache.\<close>

definition initDB :: "db \<Rightarrow> server" where
  "initDB d = \<lparr>srv_db = d, processedPaths = refreshProcessedPathsCache d\<rparr>"

text \<open>
  The whole of \<open>initDB\<close>: \<open>sql.Open\<close> only checks the driver name and
  does not connect; the first statement, \<open>CREATE TABLE IF NOT EXISTS\<close>, and
  then \<open>CREATE INDEX IF NOT EXISTS\<close> fail when the server cannot be reached,
  and \<open>log.Fatal\<close> ends the process (\<open>None\<close>); the store already has the
  table and its indexes after the first start, so both statements leave it
  unchanged. Then the cache is rebuilt.
\<close>

definition initDB_full :: "db \<Rightarrow> server option" where
  "initDB_full d = (if \<not> online d then None else Some (initDB d))"

text \<open>
  The server invariant: the cache never reports a path the store does not
  hold, and the store's ids are distinct (the primary key).
\<close>

definition server_inv :: "server \<Rightarrow> bool" where
  "server_inv s \<longleftrightarrow>
     cached_paths (processedPaths s) \<subseteq> stored_paths (srv_db s) \<and> distinct (map id_col (rows (srv_db s)))"

text \<open>Every stored row scans into a \<open>Video\<close>: no \<open>NULL\<close> in \<open>resolution\<close> or \<open>bitrate\<close>.\<close>

definition rows_scannable :: "db \<Rightarrow> bool" where
  "rows_scannable d \<longleftrightarrow> list_all row_ok (rows d)"

subsection \<open>Routing\<close>

datatype request =
    GetUnprocessed
  | GetQueue "pagination_params option"
  | PostProcess "video option"
  | PatchStatus string "string option"

datatype response =
    RVideos "video list"
  | RQueue video_queue pagination
  | RVideo video
  | RUpdated

text \<open>The four routes of \<open>main\<close>; the file system is the environment the process runs in.\<close>

definition handle :: "fnode \<Rightarrow> server \<Rightarrow> request \<Rightarrow> (handler_error + response) \<times> server" where
  "handle cwd s r =
     (case r of
       GetUnprocessed \<Rightarrow> (map_sum id RVideos (getUnprocessedVideos cwd (processedPaths s)), s)
     | GetQueue b \<Rightarrow> (map_sum id (\<lambda>(q, pg). RQueue q pg) (getQueue (srv_db s) b), s)
     | PostProcess b \<Rightarrow> (let (res, s') = addToQueue s b in (map_sum id RVideo res, s'))
     | PatchStatus i b \<Rightarrow> (let (res, s') = updateVideoStatus s i b in (map_sum id (\<lambda>_. RUpdated) res, s')))"

fun run :: "fnode \<Rightarrow> server \<Rightarrow> request list \<Rightarrow> (handler_error + response) list \<times> server" where
  "run cwd s [] = ([], s)"
| "run cwd s (r # rs) =
     (let (res, s') = handle cwd s r; (ress, s'') = run cwd s' rs in (res # ress, s''))"


text \<open>\<open>main\<close>: start-up, then the requests the server handles, one after the other.\<close>

definition main :: "fnode \<Rightarrow> db \<Rightarrow> request list \<Rightarrow> ((handler_error + response) list \<times> server) option" where
  "main cwd d rs = map_option (\<lambda>s. run cwd s rs) (initDB_full d)"

lemmas handler_defs [model_defs] = addToQueue_def addToQueue_cache_def updateVideoStatus_def initDB_def handle_def
  row_of_video_def

subsection \<open>One handler\<close>

lemma addToQueue_None [simp]: "addToQueue s None = (Inl BadRequest, s)"
  by (simp add: addToQueue_def)

lemma updateVideoStatus_None [simp]: "updateVideoStatus s i None = (Inl BadRequest, s)"
  by (simp add: updateVideoStatus_def)

lemma snd_run_Cons: "snd (run cwd s (r # rs)) = snd (run cwd (snd (handle cwd s r)) rs)"
  by (simp add: case_prod_beta)

lemma addToQueue_cases:
  "addToQueue s (Some v) =
     (if \<not> online (srv_db s) then (Inl (ServerError ConnectionFailed), s)
      else if ID v \<in> id_col ` set (rows (srv_db s)) then (Inl (ServerError (UniqueViolation (ID v))), s)
      else (Inr v, s\<lparr>srv_db := (srv_db s)\<lparr>rows := rows (srv_db s) @ [row_of_video v]\<rparr>,
                       processedPaths := cache_add (processedPaths s) (Path v)\<rparr>))"
  by (simp add: addToQueue_def addToQueue_cache_def insert_query_def row_of_video_def)

lemma updateVideoStatus_cases:
  "updateVideoStatus s i (Some st) =
     (if \<not> online (srv_db s) then (Inl (ServerError ConnectionFailed), s)
      else (Inr (), s\<lparr>srv_db := (srv_db s)\<lparr>rows := map (set_status i st) (rows (srv_db s))\<rparr>\<rparr>))"
  by (simp add: updateVideoStatus_def update_query_def)

lemma stored_paths_append [simp]:
  "stored_paths (d\<lparr>rows := rs @ [r]\<rparr>) = insert (path_col r) (path_col ` set rs)"
  by (auto simp: stored_paths_def)

lemma stored_paths_set_status [simp]:
  "stored_paths (d\<lparr>rows := map (set_status i st) (rows d)\<rparr>) = stored_paths d"
  by (auto simp: stored_paths_def image_image set_status_keeps)

lemma addToQueue_inv: "server_inv s \<Longrightarrow> server_inv (snd (addToQueue s b))"
  by (cases b) (auto simp: addToQueue_cases server_inv_def row_of_video_def stored_paths_def)

lemma updateVideoStatus_inv: "server_inv s \<Longrightarrow> server_inv (snd (updateVideoStatus s i b))"
  by (cases b) (auto simp: updateVideoStatus_cases server_inv_def)

text \<open>A property of the server that both writing handlers keep is kept by every request and every run.\<close>

lemma handle_preserves:
  assumes "P s" "\<And>b. P (snd (addToQueue s b))" "\<And>i b. P (snd (updateVideoStatus s i b))"
  shows "P (snd (handle cwd s r))"
proof (cases r)
  case (PostProcess b)
  with assms(2) [of b] show ?thesis by (simp add: handle_def case_prod_beta)
next
  case (PatchStatus i b)
  with assms(3) [of i b] show ?thesis by (simp add: handle_def case_prod_beta)
qed (simp_all add: handle_def assms(1))

lemma run_preserves:
  assumes "\<And>s r. P s \<Longrightarrow> P (snd (handle cwd s r))" "P s"
  shows "P (snd (run cwd s rs))"
  using assms(2) by (induction rs arbitrary: s) (simp_all add: snd_run_Cons assms(1) del: run.simps(2))

lemma handle_inv: "server_inv s \<Longrightarrow> server_inv (snd (handle cwd s r))"
  by (rule handle_preserves) (simp_all add: addToQueue_inv updateVideoStatus_inv)

lemma run_inv: "server_inv s \<Longrightarrow> server_inv (snd (run cwd s rs))"
  by (rule run_preserves [where P = server_inv]) (simp_all add: handle_inv)

lemma addToQueue_scannable:
  "rows_scannable (srv_db s) \<Longrightarrow> rows_scannable (srv_db (snd (addToQueue s b)))"
  by (cases b) (simp_all add: addToQueue_cases rows_scannable_def row_of_video_def row_ok_def)

lemma row_ok_set_status [simp]: "row_ok (set_status i st r) = row_ok r"
  by (simp add: set_status_def row_ok_def)

lemma updateVideoStatus_scannable:
  "rows_scannable (srv_db s) \<Longrightarrow> rows_scannable (srv_db (snd (updateVideoStatus s i b)))"
  by (cases b) (simp_all add: updateVideoStatus_cases rows_scannable_def list_all_iff)

lemma handle_scannable:
  "rows_scannable (srv_db s) \<Longrightarrow> rows_scannable (srv_db (snd (handle cwd s r)))"
  by (rule handle_preserves [where P = "\<lambda>s. rows_scannable (srv_db s)"])
    (simp_all add: addToQueue_scannable updateVideoStatus_scannable)

lemma getQueue_Total:
  "getQueue d (Some p0) = Inr (q, pg) \<Longrightarrow>
     \<exists>f. parse_where (whereClause (StatusFilter p0)) = Some f \<and>
         Total q = word_of_nat (length (selected_rows d f))"
  by (auto simp: getQueue_def getQueue_reads_def count_query_def group_videos_def foldl_group_step Let_def
      clamp_params_fields split: if_splits option.splits sum.splits)

lemma parse_where_pending_or_all:
  "StatusFilter p = [] \<or> StatusFilter p = ''pending'' \<Longrightarrow>
     parse_where (whereClause (StatusFilter p)) = Some (filter_of (StatusFilter p))"
  by (rule parse_where_whereClause) (auto simp: sql_quote_def)

lemma handle_cache_mono:
  "cached_paths (processedPaths s) \<subseteq> cached_paths (processedPaths (snd (handle cwd s r)))"
proof (cases r)
  case (PostProcess b)
  then show ?thesis by (cases b) (auto simp: handle_def addToQueue_cases split: prod.splits)
next
  case (PatchStatus i b)
  then show ?thesis by (cases b) (auto simp: handle_def updateVideoStatus_cases split: prod.splits)
qed (simp_all add: handle_def)

lemma run_cache_mono:
  "cached_paths (processedPaths s) \<subseteq> cached_paths (processedPaths (snd (run cwd s rs)))"
  by (induction rs arbitrary: s) (auto simp: snd_run_Cons simp del: run.simps(2)
      dest: subsetD [OF handle_cache_mono])


lemma initDB_inv: "distinct (map id_col (rows d)) \<Longrightarrow> server_inv (initDB d)"
  by (auto simp: server_inv_def initDB_def cached_paths_def cache_lookup_refresh)

subsection \<open>Properties of the handlers\<close>

text \<open>
  C2. The server invariant holds after \<open>initDB\<close> on a store with distinct
  ids and after any sequence of requests: the cache never claims a path the
  store does not hold (staleness only ever favours re-discovery).
\<close>

theorem server_inv_run:
  assumes "distinct (map id_col (rows d))"
  shows "server_inv (snd (run cwd (initDB d) rs))"
  using run_inv [OF initDB_inv [OF assms]] .

text \<open>
  C1. Deduplication: once \<open>addToQueue\<close> has stored a video, no later
  discovery, after any further requests, reports its path as unprocessed.
\<close>

theorem enqueued_never_rediscovered:
  assumes "addToQueue s (Some v) = (Inr v', s1)" "run cwd s1 rs = (outs, s2)"
    and "getUnprocessedVideos cwd (processedPaths s2) = Inr vs"
  shows "Path v \<notin> Path ` set vs"
proof -
  from assms(1) have "Path v \<in> cached_paths (processedPaths s1)"
    by (auto simp: addToQueue_cases cached_paths_def split: if_splits)
  with run_cache_mono [of s1 cwd rs] assms(2) have "cache_lookup (processedPaths s2) (Path v)"
    by (auto simp: cached_paths_def)
  with assms(3) show ?thesis by (auto dest: getUnprocessedVideos_not_cached)
qed

text \<open>
  C11. Enqueueing stores exactly one new row, with the caller's id and path
  and the status \<open>pending\<close> whatever status the caller sent, and records the
  path in the cache; the response is the video as the caller sent it.
\<close>

theorem addToQueue_forces_pending:
  assumes "addToQueue s (Some v) = (Inr v', s')"
  shows "\<exists>r. rows (srv_db s') = rows (srv_db s) @ [r] \<and> id_col r = ID v \<and> path_col r = Path v \<and>
             status_col r = ''pending'' \<and> v' = v \<and> cache_lookup (processedPaths s') (Path v)"
  using assms by (auto simp: addToQueue_cases row_of_video_def split: if_splits)

text \<open>C20. An id already in the store is rejected with the primary-key violation, and nothing changes.\<close>

theorem addToQueue_duplicate_id:
  assumes "online (srv_db s)" "ID v \<in> id_col ` set (rows (srv_db s))"
  shows "addToQueue s (Some v) = (Inl (ServerError (UniqueViolation (ID v))), s)"
  using assms by (simp add: addToQueue_cases)

text \<open>
  C21. A path already in the store is not rejected: with a fresh id the
  second row is stored beside the first, so paths are not unique.
\<close>

theorem addToQueue_duplicate_path:
  assumes "online (srv_db s)" "ID v \<notin> id_col ` set (rows (srv_db s))"
    and "Path v \<in> stored_paths (srv_db s)"
  shows "\<exists>s'. addToQueue s (Some v) = (Inr v, s') \<and>
           2 \<le> length (filter (\<lambda>r. path_col r = Path v) (rows (srv_db s')))"
proof -
  from assms(3) have "1 \<le> length (filter (\<lambda>r. path_col r = Path v) (rows (srv_db s)))"
    by (auto simp: stored_paths_def Suc_le_eq filter_empty_conv)
  with assms(1,2) show ?thesis by (simp add: addToQueue_cases row_of_video_def)
qed

text \<open>
  C22. A status update for an id the store does not hold answers success and
  changes nothing: there is no not-found outcome.
\<close>

theorem updateVideoStatus_unknown_id:
  assumes "online (srv_db s)" "i \<notin> id_col ` set (rows (srv_db s))"
  shows "updateVideoStatus s i (Some st) = (Inr (), s)"
proof -
  have "map (set_status i st) (rows (srv_db s)) = rows (srv_db s)"
    using assms(2) by (rule map_set_status_absent)
  with assms(1) show ?thesis by (simp add: updateVideoStatus_cases)
qed

text \<open>
  C23. A successful status update writes the given string, unchecked, as the
  status of the rows with that id and of no other row; ids, paths and the
  cache are unchanged.
\<close>

theorem updateVideoStatus_effect:
  assumes "updateVideoStatus s i (Some st) = (Inr (), s')"
  shows "map id_col (rows (srv_db s')) = map id_col (rows (srv_db s))
       \<and> map path_col (rows (srv_db s')) = map path_col (rows (srv_db s))
       \<and> map status_col (rows (srv_db s')) =
           map (\<lambda>r. if id_col r = i then st else status_col r) (rows (srv_db s))
       \<and> processedPaths s' = processedPaths s"
  using assms by (auto simp: updateVideoStatus_cases set_status_def split: if_splits)

text \<open>
  C27. Rows written through the API always scan: from a store whose rows all
  have \<open>resolution\<close> and \<open>bitrate\<close>, any sequence of requests leaves a
  store whose rows all have them, so the queue view drops none of them.
\<close>

theorem run_rows_scannable:
  assumes "rows_scannable (srv_db s)"
  shows "rows_scannable (srv_db (snd (run cwd s rs)))"
  by (rule run_preserves [where P = "\<lambda>s. rows_scannable (srv_db s)"])
    (simp_all add: handle_scannable assms)

text \<open>
  C28. Enqueueing and the queue view agree: unfiltered or filtered on
  \<open>pending\<close>, the total the queue view reports grows by one with each
  successful enqueue.
\<close>

theorem enqueue_counted:
  assumes "addToQueue s (Some v) = (Inr v', s')"
    and "getQueue (srv_db s) (Some p) = Inr (q, pg)" "getQueue (srv_db s') (Some p) = Inr (q', pg')"
    and "StatusFilter p = [] \<or> StatusFilter p = ''pending''"
  shows "Total q' = Total q + 1"
proof -
  from assms(1) have d': "rows (srv_db s') = rows (srv_db s) @ [row_of_video v]"
    by (auto simp: addToQueue_cases split: if_splits)
  have w: "parse_where (whereClause (StatusFilter p)) = Some (filter_of (StatusFilter p))"
    using assms(4) by (rule parse_where_pending_or_all)
  have m: "status_matches (filter_of (StatusFilter p)) (row_of_video v)"
    using assms(4) by (auto simp: status_matches_def filter_of_def row_of_video_def)
  from getQueue_Total [OF assms(2)] getQueue_Total [OF assms(3)] w
  have "Total q = word_of_nat (length (selected_rows (srv_db s) (filter_of (StatusFilter p))))"
    "Total q' = word_of_nat (length (selected_rows (srv_db s') (filter_of (StatusFilter p))))"
    by auto
  with d' m show ?thesis by (simp add: selected_rows_def)
qed

end
