(* ===== verification/Interleaving.thy ===== *)
theory Interleaving
  imports Handlers
begin

text \<open>
  Concurrent requests. gin serves each request on its own goroutine, the
  store answers each statement atomically, and \<open>processedPaths\<close> is shared
  without a lock. \<open>addToQueue\<close> has two effects, the \<open>INSERT\<close> and then
  the write of the path into the cache; any other handler may run between
  them. The system state is the server and the videos whose rows are stored
  but whose cache write (\<open>addToQueue_cache\<close>) is still to come; a step is
  one atomic effect of some request. Readers (discovery, the queue view) do not change the state:
  they observe whichever reachable state they run in.
\<close>

record sys =
  srv :: server
  inflight :: "video list"

inductive sys_step :: "sys \<Rightarrow> sys \<Rightarrow> bool" where
  enqueue_insert:
    "insert_query (srv_db (srv S)) (row_of_video v) = Inr d' \<Longrightarrow>
     sys_step S (S\<lparr>srv := (srv S)\<lparr>srv_db := d'\<rparr>, inflight := v # inflight S\<rparr>)"
| enqueue_cache:
    "v \<in> set (inflight S) \<Longrightarrow>
     sys_step S (S\<lparr>srv := addToQueue_cache (srv S) v, inflight := remove1 v (inflight S)\<rparr>)"
| update_status:
    "updateVideoStatus (srv S) i b = (res, s') \<Longrightarrow> sys_step S (S\<lparr>srv := s'\<rparr>)"

inductive reachable :: "db \<Rightarrow> sys \<Rightarrow> bool" for d0 :: db where
  init: "reachable d0 \<lparr>srv = initDB d0, inflight = []\<rparr>"
| step: "reachable d0 S \<Longrightarrow> sys_step S S' \<Longrightarrow> reachable d0 S'"

text \<open>
  The invariant: the cache holds stored paths only, the paths in flight are
  stored, and every stored path is cached or in flight, except, when the
  rebuild at start-up failed, the paths the store held then.
\<close>

definition sys_inv :: "db \<Rightarrow> sys \<Rightarrow> bool" where
  "sys_inv d0 S \<longleftrightarrow>
     cached_paths (processedPaths (srv S)) \<subseteq> stored_paths (srv_db (srv S)) \<and>
     Path ` set (inflight S) \<subseteq> stored_paths (srv_db (srv S)) \<and>
     stored_paths (srv_db (srv S)) \<subseteq>
       cached_paths (processedPaths (srv S)) \<union> Path ` set (inflight S) \<union>
       (if online d0 then {} else stored_paths d0)"

inductive_cases sys_step_cases: "sys_step S S'"

lemma sys_inv_init: "sys_inv d0 \<lparr>srv = initDB d0, inflight = []\<rparr>"
  by (auto simp: sys_inv_def initDB_def cached_paths_def cache_lookup_refresh)

lemma set_remove1_ge: "set xs - {x} \<subseteq> set (remove1 x xs)"
  by (induction xs) auto

lemma cache_step_sets:
  "C \<subseteq> A \<Longrightarrow> I \<subseteq> A \<Longrightarrow> A \<subseteq> C \<union> I \<union> X \<Longrightarrow> p \<in> I \<Longrightarrow> I \<subseteq> insert p R \<Longrightarrow> R \<subseteq> I \<Longrightarrow>
   insert p C \<subseteq> A \<and> R \<subseteq> A \<and> A \<subseteq> insert p C \<union> R \<union> X"
  by blast

lemma sys_step_inv: "sys_step S S' \<Longrightarrow> sys_inv d0 S \<Longrightarrow> sys_inv d0 S'"
proof (induction rule: sys_step.induct)
  case (enqueue_insert S v d')
  then show ?case
    by (auto simp: sys_inv_def stored_paths_insert row_of_video_def)
next
  case (enqueue_cache v S)
  have "Path ` set (inflight S) \<subseteq> insert (Path v) (Path ` set (remove1 v (inflight S)))"
    using set_remove1_ge [of "inflight S" v] by blast
  moreover have "Path ` set (remove1 v (inflight S)) \<subseteq> Path ` set (inflight S)"
    using set_remove1_subset [of v "inflight S"] by blast
  moreover have "Path v \<in> Path ` set (inflight S)" using enqueue_cache.hyps by blast
  moreover note enqueue_cache.prems [unfolded sys_inv_def]
  ultimately have "insert (Path v) (cached_paths (processedPaths (srv S))) \<subseteq> stored_paths (srv_db (srv S)) \<and>
      Path ` set (remove1 v (inflight S)) \<subseteq> stored_paths (srv_db (srv S)) \<and>
      stored_paths (srv_db (srv S)) \<subseteq> insert (Path v) (cached_paths (processedPaths (srv S))) \<union>
        Path ` set (remove1 v (inflight S)) \<union> (if online d0 then {} else stored_paths d0)"
    by (intro cache_step_sets) (elim conjE, assumption)+
  then show ?case by (simp add: sys_inv_def addToQueue_cache_def)
next
  case (update_status S i b res s')
  then show ?case
    by (cases b) (auto simp: sys_inv_def updateVideoStatus_cases split: if_splits)
qed

lemma reachable_inv: "reachable d0 S \<Longrightarrow> sys_inv d0 S"
  by (induction rule: reachable.induct) (auto intro: sys_inv_init sys_step_inv)

lemma reachable_steps: "sys_step\<^sup>*\<^sup>* S S' \<Longrightarrow> reachable d0 S \<Longrightarrow> reachable d0 S'"
  by (induction rule: rtranclp_induct) (auto intro: reachable.step)

text \<open>Performing the pending cache writes one after the other, in list order.\<close>

lemma drain_inflight:
  "inflight S = ps \<Longrightarrow> \<exists>S'. sys_step\<^sup>*\<^sup>* S S' \<and> inflight S' = [] \<and> srv_db (srv S') = srv_db (srv S) \<and>
      cached_paths (processedPaths (srv S')) = cached_paths (processedPaths (srv S)) \<union> Path ` set ps"
proof (induction ps arbitrary: S)
  case Nil
  then show ?case by auto
next
  case (Cons p ps)
  let ?S1 = "S\<lparr>srv := addToQueue_cache (srv S) p, inflight := remove1 p (inflight S)\<rparr>"
  have step: "sys_step S ?S1" by (rule sys_step.enqueue_cache) (simp add: Cons.prems)
  have "inflight ?S1 = ps" using Cons.prems by simp
  from Cons.IH [OF this] obtain S' where S': "sys_step\<^sup>*\<^sup>* ?S1 S'" "inflight S' = []"
    "srv_db (srv S') = srv_db (srv ?S1)"
    "cached_paths (processedPaths (srv S')) = cached_paths (processedPaths (srv ?S1)) \<union> Path ` set ps"
    by blast
  show ?case using converse_rtranclp_into_rtranclp [OF step S'(1)] S'(2-4)
    by (auto simp: addToQueue_cache_def)
qed


text \<open>The handler \<open>addToQueue\<close>, run alone, is the \<open>INSERT\<close> step followed at once by its cache step.\<close>

lemma addToQueue_as_steps:
  assumes "addToQueue (srv S) (Some v) = (Inr v', s')"
  shows "\<exists>S1. sys_step S S1 \<and> sys_step S1 (S\<lparr>srv := s'\<rparr>)"
proof -
  from assms obtain d' where d': "insert_query (srv_db (srv S)) (row_of_video v) = Inr d'"
    and s': "s' = addToQueue_cache ((srv S)\<lparr>srv_db := d'\<rparr>) v"
    by (auto simp: addToQueue_def split: sum.splits)
  let ?S1 = "S\<lparr>srv := (srv S)\<lparr>srv_db := d'\<rparr>, inflight := v # inflight S\<rparr>"
  have "sys_step S ?S1" using d' by (rule sys_step.enqueue_insert)
  moreover have "sys_step ?S1 (?S1\<lparr>srv := addToQueue_cache (srv ?S1) v, inflight := remove1 v (inflight ?S1)\<rparr>)"
    by (rule sys_step.enqueue_cache) simp
  ultimately show ?thesis using s' by auto
qed


subsection \<open>Properties of interleaved requests\<close>

text \<open>
  C4. In every state reachable by interleaved requests, the cache reports
  only stored paths, and every stored path is cached or has its cache write
  in flight (the paths a failed start-up rebuild missed apart).
\<close>

theorem reachable_cache_consistent:
  assumes "reachable d0 S"
  shows "cached_paths (processedPaths (srv S)) \<subseteq> stored_paths (srv_db (srv S)) \<and>
         (online d0 \<longrightarrow> stored_paths (srv_db (srv S)) \<subseteq>
            cached_paths (processedPaths (srv S)) \<union> Path ` set (inflight S))"
  using reachable_inv [OF assms] by (auto simp: sys_inv_def)

text \<open>
  C5. When no enqueue is half done, a discovery run by any interleaving of
  requests reports no path the store holds.
\<close>

theorem quiescent_discovery_sound:
  assumes "reachable d0 S" "online d0" "inflight S = []"
    and "getUnprocessedVideos cwd (processedPaths (srv S)) = Inr vs"
  shows "\<forall>v \<in> set vs. Path v \<notin> stored_paths (srv_db (srv S))"
proof
  fix v assume v: "v \<in> set vs"
  from reachable_inv [OF assms(1)] assms(2,3)
  have "stored_paths (srv_db (srv S)) \<subseteq> cached_paths (processedPaths (srv S))"
    by (simp add: sys_inv_def)
  with getUnprocessedVideos_not_cached [OF assms(4) v]
  show "Path v \<notin> stored_paths (srv_db (srv S))" by (auto simp: cached_paths_def)
qed

text \<open>
  C6. The window closes: from every reachable state the pending cache writes
  can all be performed, without any further request, reaching a reachable
  state with nothing in flight, the same store, and the paths of the videos
  in flight added to the cache; when start-up had rebuilt the cache, the
  cache there holds exactly the stored paths.
\<close>

theorem inflight_drains:
  assumes "reachable d0 S"
  shows "\<exists>S'. reachable d0 S' \<and> sys_step\<^sup>*\<^sup>* S S' \<and> inflight S' = [] \<and>
              srv_db (srv S') = srv_db (srv S) \<and>
              cached_paths (processedPaths (srv S')) =
                cached_paths (processedPaths (srv S)) \<union> Path ` set (inflight S) \<and>
              (online d0 \<longrightarrow> cached_paths (processedPaths (srv S')) = stored_paths (srv_db (srv S')))"
proof -
  obtain S' where S': "sys_step\<^sup>*\<^sup>* S S'" "inflight S' = []" "srv_db (srv S') = srv_db (srv S)"
    "cached_paths (processedPaths (srv S')) = cached_paths (processedPaths (srv S)) \<union> Path ` set (inflight S)"
    using drain_inflight [OF refl, of S] by blast
  have r: "reachable d0 S'" using reachable_steps [OF S'(1) assms] .
  have "online d0 \<longrightarrow> cached_paths (processedPaths (srv S')) = stored_paths (srv_db (srv S'))"
    using reachable_inv [OF r] S'(2) by (auto simp: sys_inv_def)
  with r S' show ?thesis by blast
qed

end
