(* ===== verification/Routing.thy ===== *)
theory Routing
  imports Handlers
begin

text \<open>
  The HTTP boundary of \<open>main.go\<close>: the four routes gin matches, the binding
  of the query of \<open>/api/queue\<close> into \<open>PaginationParams\<close> (its \<open>form\<close>
  tags with their defaults, each integer read by \<open>strconv.ParseInt(s, 10, 64)\<close>),
  the status code each handler answers with, and the composition of router,
  binding and handler. (\<open>LIMIT\<close> and \<open>OFFSET\<close> are written into the page
  query by \<open>%d\<close>; \<open>page_query\<close> takes the two integers that text denotes.)
  A query is the list of its decoded \<open>key=value\<close> pairs in URL order (gin
  binds the first value of a key); the JSON bodies are decoded by gin and
  arrive as the bound values of the handlers.
\<close>

subsection \<open>Decimal integers\<close>

definition is_digit :: "char \<Rightarrow> bool" where
  "is_digit c \<longleftrightarrow> CHR ''0'' \<le> c \<and> c \<le> CHR ''9''"

text \<open>The digits loop of \<open>strconv.ParseUint\<close>: \<open>None\<close> at the first non-digit.\<close>

fun digits_value :: "nat \<Rightarrow> string \<Rightarrow> nat option" where
  "digits_value acc [] = Some acc"
| "digits_value acc (c # cs) =
     (if is_digit c then digits_value (acc * 10 + (of_char c - 48)) cs else None)"

text \<open>
  \<open>strconv.ParseInt(s, 10, 64)\<close>: an optional sign, then at least one
  digit; a value outside the 64-bit range is an error (\<open>ErrRange\<close>), as is
  any other character (\<open>ErrSyntax\<close>).
\<close>

definition parse_int64 :: "string \<Rightarrow> int64 option" where
  "parse_int64 s =
     (let (neg, ds) = (case s of
                         c # r \<Rightarrow> if c = CHR ''-'' then (True, r)
                                  else if c = CHR ''+'' then (False, r) else (False, s)
                       | [] \<Rightarrow> (False, []))
      in if ds = [] then None
         else case digits_value 0 ds of
           None \<Rightarrow> None
         | Some n \<Rightarrow>
             (let v = (if neg then - int n else int n)
              in if - (2 ^ 63) \<le> v \<and> v < 2 ^ 63 then Some (word_of_int v) else None))"

text \<open>The decimal text of a natural number, as a client writes a query value: the digits, most significant first.\<close>

fun dec_nat :: "nat \<Rightarrow> string" where
  "dec_nat n = (if n < 10 then [char_of (48 + n)] else dec_nat (n div 10) @ [char_of (48 + n mod 10)])"

declare dec_nat.simps [simp del]

subsection \<open>Binding the query\<close>

text \<open>
  One integer field: the default when the key is absent or its value is
  empty (gin's \<open>default=\<close> tag), the parsed value otherwise; a value that
  does not parse fails the binding.
\<close>

definition bind_int :: "string option \<Rightarrow> int64 \<Rightarrow> int64 option" where
  "bind_int v dflt = (case v of None \<Rightarrow> Some dflt | Some s \<Rightarrow> if s = [] then Some dflt else parse_int64 s)"

text \<open>\<open>c.ShouldBindQuery(&params)\<close> with the tags \<open>page,default=1\<close>, \<open>pageSize,default=10\<close>, \<open>status\<close>.\<close>

definition bind_query :: "(string \<times> string) list \<Rightarrow> pagination_params option" where
  "bind_query qs =
     (case bind_int (map_of qs ''page'') 1 of
       None \<Rightarrow> None
     | Some pg \<Rightarrow>
         (case bind_int (map_of qs ''pageSize'') 10 of
           None \<Rightarrow> None
         | Some ps \<Rightarrow>
             Some \<lparr>Page = pg, PageSize = ps,
                   StatusFilter = (case map_of qs ''status'' of None \<Rightarrow> [] | Some s \<Rightarrow> s)\<rparr>))"

subsection \<open>Routes and status codes\<close>

text \<open>The path a list of segments spells, segments joined by \<open>/\<close>.\<close>

fun join_path :: "string list \<Rightarrow> string" where
  "join_path [] = []"
| "join_path [x] = x"
| "join_path (x # y # xs) = x @ ''/'' @ join_path (y # xs)"

datatype route = RouteUnprocessed | RouteQueue | RouteProcess | RouteStatus string

text \<open>
  The router of \<open>main\<close>: the method and the path segments; \<open>:id\<close> matches
  one non-empty segment. Any other request is gin's \<open>404\<close> (\<open>None\<close>).
\<close>

definition route_of :: "string \<Rightarrow> string \<Rightarrow> route option" where
  "route_of m p =
     (let ss = split_slash [] p
      in if m = ''GET'' \<and> ss = ['''', ''api'', ''videos'', ''unprocessed''] then Some RouteUnprocessed
         else if m = ''GET'' \<and> ss = ['''', ''api'', ''queue''] then Some RouteQueue
         else if m = ''POST'' \<and> ss = ['''', ''api'', ''videos'', ''process''] then Some RouteProcess
         else if m = ''PATCH'' \<and> length ss = 5 \<and> take 3 ss = ['''', ''api'', ''videos''] \<and>
                 ss ! 3 \<noteq> [] \<and> ss ! 4 = ''status'' then Some (RouteStatus (ss ! 3))
         else None)"

text \<open>
  The status each handler writes with \<open>c.JSON\<close>: \<open>400\<close> for a failed
  binding, \<open>500\<close> for an error of the store or of the walk, \<open>200\<close> otherwise.
\<close>

definition http_status :: "handler_error + 'a \<Rightarrow> nat" where
  "http_status r =
     (case r of Inl BadRequest \<Rightarrow> 400 | Inl (ServerError _) \<Rightarrow> 500 | Inl (WalkError _) \<Rightarrow> 500
      | Inr _ \<Rightarrow> 200)"

text \<open>An HTTP request after gin has decoded its URL and, where the route binds one, its JSON body.\<close>

record http_request =
  req_method :: string
  req_path :: string
  req_query :: "(string \<times> string) list"
  req_video :: "video option"
  req_status :: "string option"

definition serve :: "fnode \<Rightarrow> server \<Rightarrow> http_request \<Rightarrow> (nat \<times> (handler_error + response) option) \<times> server" where
  "serve cwd s r =
     (case route_of (req_method r) (req_path r) of
       None \<Rightarrow> ((404, None), s)
     | Some rt \<Rightarrow>
         (let req = (case rt of
                       RouteUnprocessed \<Rightarrow> GetUnprocessed
                     | RouteQueue \<Rightarrow> GetQueue (bind_query (req_query r))
                     | RouteProcess \<Rightarrow> PostProcess (req_video r)
                     | RouteStatus i \<Rightarrow> PatchStatus i (req_status r));
              (res, s') = handle cwd s req
          in ((http_status res, Some res), s')))"

lemmas routing_defs [model_defs] = route_of_def bind_query_def bind_int_def http_status_def serve_def

subsection \<open>Decimal integers\<close>

lemma digits_value_append:
  "digits_value acc (xs @ ys) = (case digits_value acc xs of None \<Rightarrow> None | Some a \<Rightarrow> digits_value a ys)"
  by (induction xs arbitrary: acc) auto

lemma is_digit_char_of: "(k::nat) < 10 \<Longrightarrow> is_digit (char_of (48 + k))"
  by (simp add: is_digit_def less_eq_char_def)

lemma dec_nat_digits: "c \<in> set (dec_nat n) \<Longrightarrow> is_digit c"
proof (induction n rule: dec_nat.induct)
  case (1 n)
  show ?case
  proof (cases "n < 10")
    case True
    with "1.prems" show ?thesis by (subst (asm) dec_nat.simps) (simp add: is_digit_char_of)
  next
    case False
    with "1.prems" have "c \<in> set (dec_nat (n div 10)) \<or> c = char_of (48 + n mod 10)"
      by (subst (asm) dec_nat.simps) auto
    with "1.IH" [OF False] show ?thesis by (auto simp: is_digit_char_of)
  qed
qed

lemma dec_nat_Cons: "\<exists>c r. dec_nat n = c # r \<and> is_digit c"
proof -
  have "dec_nat n \<noteq> []" by (subst dec_nat.simps) simp
  then obtain c r where "dec_nat n = c # r" by (cases "dec_nat n") auto
  with dec_nat_digits [of c n] show ?thesis by auto
qed

lemma digits_value_dec_nat: "digits_value 0 (dec_nat n) = Some n"
proof (induction n rule: dec_nat.induct)
  case (1 n)
  show ?case
  proof (cases "n < 10")
    case True
    then show ?thesis by (subst dec_nat.simps) (simp add: is_digit_char_of)
  next
    case False
    then have "dec_nat n = dec_nat (n div 10) @ [char_of (48 + n mod 10)]" by (subst dec_nat.simps) simp
    with "1.IH" [OF False] show ?thesis by (simp add: digits_value_append is_digit_char_of)
  qed
qed

lemma not_sign_digit: "is_digit c \<Longrightarrow> c \<noteq> CHR ''-'' \<and> c \<noteq> CHR ''+''"
  by (auto simp: is_digit_def)

lemma parse_int64_dec_nat:
  "parse_int64 (dec_nat n) = (if n < 2 ^ 63 then Some (word_of_nat n) else None)"
proof -
  obtain c r where cr: "dec_nat n = c # r" "is_digit c" using dec_nat_Cons by blast
  have "int n < 2 ^ 63 \<longleftrightarrow> n < 2 ^ 63" by (metis of_nat_less_iff of_nat_numeral of_nat_power)
  with cr not_sign_digit [OF cr(2)] digits_value_dec_nat [of n] show ?thesis
    by (simp add: parse_int64_def)
qed

lemma getQueue_None [simp]: "getQueue d None = Inl BadRequest"
  by (simp add: getQueue_def getQueue_reads_def)

subsection \<open>Path segments\<close>

lemma split_slash_nonempty: "split_slash acc p \<noteq> []"
  by (induction p arbitrary: acc) auto

lemma join_path_split_slash: "join_path (split_slash acc p) = rev acc @ p"
proof (induction p arbitrary: acc)
  case (Cons c cs)
  show ?case
  proof (cases "c = CHR ''/''")
    case True
    obtain y ys where "split_slash [] cs = y # ys" using split_slash_nonempty by (cases "split_slash [] cs") auto
    with Cons.IH [of "[]"] True show ?thesis by simp
  next
    case False
    with Cons.IH [of "c # acc"] show ?thesis by simp
  qed
qed simp

lemma split_slash_segments: "CHR ''/'' \<notin> set acc \<Longrightarrow> x \<in> set (split_slash acc p) \<Longrightarrow> CHR ''/'' \<notin> set x"
  by (induction acc p rule: split_slash.induct) (auto split: if_splits)

lemma split_slash_inj: "split_slash [] p = ss \<Longrightarrow> p = join_path ss"
  using join_path_split_slash [where acc = "[]" and p = p] by simp

lemma split_slash_status_path:
  "CHR ''/'' \<notin> set i \<Longrightarrow>
     split_slash [] (''/api/videos/'' @ i @ ''/status'') = ['''', ''api'', ''videos'', i, ''status'']"
  by (simp add: split_slash_append_slash split_slash_no_slash)

subsection \<open>Properties of the HTTP boundary\<close>

text \<open>
  C29. The query of \<open>/api/queue\<close> with a decimal \<open>page\<close>: a value below
  \<open>2^63\<close> is bound and the queue view answers with its status; a larger
  value fails \<open>ParseInt\<close> and the request is answered \<open>400\<close> without
  touching the store.
\<close>

theorem serve_queue_page:
  "serve cwd s \<lparr>req_method = ''GET'', req_path = ''/api/queue'', req_query = [(''page'', dec_nat n)],
               req_video = v, req_status = st\<rparr> =
     (if n < 2 ^ 63 then
        (let res = map_sum id (\<lambda>(q, pg). RQueue q pg)
                     (getQueue (srv_db s) (Some \<lparr>Page = word_of_nat n, PageSize = 10, StatusFilter = []\<rparr>))
         in ((http_status res, Some res), s))
      else ((400, Some (Inl BadRequest)), s))"
proof -
  have r: "route_of ''GET'' ''/api/queue'' = Some RouteQueue" by (simp add: route_of_def)
  obtain c r' where "dec_nat n = c # r'" "is_digit c" using dec_nat_Cons by blast
  then have "dec_nat n \<noteq> []" by simp
  then show ?thesis
    by (simp add: serve_def r bind_query_def bind_int_def parse_int64_dec_nat handle_def
        http_status_def Let_def)
qed

text \<open>
  C30. An enqueue conflict is not reported as one: a duplicate id is
  answered \<open>500\<close> with the store's error, the same status as a store that
  cannot be reached, where the specification asks for a distinct conflict.
\<close>

theorem serve_enqueue_conflict:
  assumes "online (srv_db s)" "ID v \<in> id_col ` set (rows (srv_db s))"
  shows "serve cwd s \<lparr>req_method = ''POST'', req_path = ''/api/videos/process'', req_query = q,
                     req_video = Some v, req_status = st\<rparr> =
           ((500, Some (Inl (ServerError (UniqueViolation (ID v))))), s) \<and>
         serve cwd (s\<lparr>srv_db := (srv_db s)\<lparr>online := False\<rparr>\<rparr>)
           \<lparr>req_method = ''POST'', req_path = ''/api/videos/process'', req_query = q,
            req_video = Some v, req_status = st\<rparr> =
           ((500, Some (Inl (ServerError ConnectionFailed))), s\<lparr>srv_db := (srv_db s)\<lparr>online := False\<rparr>\<rparr>)"
proof -
  have r: "route_of ''POST'' ''/api/videos/process'' = Some RouteProcess" by (simp add: route_of_def)
  with assms show ?thesis
    by (simp add: serve_def handle_def addToQueue_cases http_status_def)
qed

text \<open>
  C31. The router answers exactly the four routes of \<open>main\<close>: each method
  and path, and for the status route every id that is one non-empty path
  segment; anything else is \<open>404\<close>.
\<close>

theorem route_of_exact:
  "route_of m p = Some rt \<longleftrightarrow>
     (rt = RouteUnprocessed \<and> m = ''GET'' \<and> p = ''/api/videos/unprocessed'') \<or>
     (rt = RouteQueue \<and> m = ''GET'' \<and> p = ''/api/queue'') \<or>
     (rt = RouteProcess \<and> m = ''POST'' \<and> p = ''/api/videos/process'') \<or>
     (\<exists>i. rt = RouteStatus i \<and> m = ''PATCH'' \<and> p = ''/api/videos/'' @ i @ ''/status'' \<and>
          i \<noteq> [] \<and> CHR ''/'' \<notin> set i)"
  (is "?l \<longleftrightarrow> ?r")
proof
  assume r: ?l
  obtain ss where ss: "split_slash [] p = ss" by simp
  have p: "p = join_path ss" using ss by (rule split_slash_inj)
  from r ss have r': "(if m = ''GET'' \<and> ss = ['''', ''api'', ''videos'', ''unprocessed''] then Some RouteUnprocessed
         else if m = ''GET'' \<and> ss = ['''', ''api'', ''queue''] then Some RouteQueue
         else if m = ''POST'' \<and> ss = ['''', ''api'', ''videos'', ''process''] then Some RouteProcess
         else if m = ''PATCH'' \<and> length ss = 5 \<and> take 3 ss = ['''', ''api'', ''videos''] \<and>
                 ss ! 3 \<noteq> [] \<and> ss ! 4 = ''status'' then Some (RouteStatus (ss ! 3))
         else None) = Some rt"
    by (simp add: route_of_def Let_def)
  show ?r
  proof (cases "m = ''PATCH'' \<and> length ss = 5 \<and> take 3 ss = ['''', ''api'', ''videos''] \<and>
                ss ! 3 \<noteq> [] \<and> ss ! 4 = ''status''")
    case True
    then obtain a b c i e where l: "ss = [a, b, c, i, e]"
      by (auto simp: length_Suc_conv numeral_eq_Suc)
    with True have ss5: "ss = ['''', ''api'', ''videos'', i, ''status'']" and i: "i \<noteq> []" by simp_all
    have "CHR ''/'' \<notin> set i"
      using split_slash_segments [of "[]" i p] ss ss5 by simp
    moreover from r' True l have "rt = RouteStatus i" by auto
    ultimately show ?thesis using True p ss5 i by simp
  next
    case False
    with r' have "(rt = RouteUnprocessed \<and> m = ''GET'' \<and> ss = ['''', ''api'', ''videos'', ''unprocessed'']) \<or>
        (rt = RouteQueue \<and> m = ''GET'' \<and> ss = ['''', ''api'', ''queue'']) \<or>
        (rt = RouteProcess \<and> m = ''POST'' \<and> ss = ['''', ''api'', ''videos'', ''process''])"
      by (simp split: if_splits)
    with p show ?thesis by auto
  qed
next
  assume ?r
  then show ?l
  proof (elim disjE exE conjE)
    fix i
    assume rt: "rt = RouteStatus i" and m: "m = ''PATCH''" and p: "p = ''/api/videos/'' @ i @ ''/status''"
      and i: "i \<noteq> []" "CHR ''/'' \<notin> set i"
    have "split_slash [] p = ['''', ''api'', ''videos'', i, ''status'']"
      unfolding p by (rule split_slash_status_path [OF i(2)])
    with rt m i show ?l by (simp add: route_of_def Let_def)
  qed (simp_all add: route_of_def)
qed

end
