(* ===== verification/Scenarios.thy ===== *)
theory Scenarios
  imports Interleaving Routing
begin

text \<open>
  The scenarios of the specification, section 8, as concrete stores, file
  systems and requests, evaluated by the simplifier; and one closed
  instance of each property of the component theories that has hypotheses,
  showing that they can hold.
\<close>

definition mk_row :: "string \<Rightarrow> string \<Rightarrow> string \<Rightarrow> video_row" where
  "mk_row i p st = \<lparr>id_col = i, path_col = p, resolution_col = Some [], bitrate_col = Some [],
                    status_col = st, original_size_col = 0\<rparr>"

text \<open>Three \<open>pending\<close>, two \<open>processing\<close>, one \<open>completed\<close>, in storage order.\<close>

definition store6 :: db where
  "store6 = \<lparr>rows = [mk_row ''a'' ''a'' ''pending'', mk_row ''b'' ''b'' ''processing'',
     mk_row ''c'' ''c'' ''pending'', mk_row ''d'' ''d'' ''completed'',
     mk_row ''e'' ''e'' ''processing'', mk_row ''f'' ''f'' ''pending''], online = True\<rparr>"

text \<open>A directory with \<open>a.mp4\<close>, \<open>b.mp4\<close>, \<open>c.mp4\<close> and a text file; a store holding \<open>a.mp4\<close>.\<close>

definition videos_abc :: fnode where
  "videos_abc = FDir [(''a.mp4'', FFile (Some 10)), (''b.mp4'', FFile (Some 20)),
                      (''c.mp4'', FFile None), (''notes.txt'', FFile (Some 1))]"

definition fs_abc :: fnode where
  "fs_abc = FDir [(''videos'', videos_abc)]"

definition store_a :: db where
  "store_a = \<lparr>rows = [mk_row ''a.mp4'' ''videos/a.mp4'' ''pending''], online = True\<rparr>"

definition vid_b :: video where
  "vid_b = \<lparr>ID = ''b.mp4'', Path = ''videos/b.mp4'', Resolution = ''1080p'', Bitrate = ''5M'',
            Status = ''completed'', OriginalSize = 20\<rparr>"

text \<open>A store with a row of an unknown status and a row with a \<open>NULL\<close> bitrate.\<close>

definition store_odd :: db where
  "store_odd = \<lparr>rows = [mk_row ''a'' ''a'' ''pending'', mk_row ''b'' ''b'' ''failed'',
     (mk_row ''c'' ''c'' ''processing'')\<lparr>bitrate_col := None\<rparr>], online = True\<rparr>"

text \<open>A video as the queue view shows a row built by \<open>mk_row\<close>, and as discovery reports a file.\<close>

definition mk_vid :: "string \<Rightarrow> string \<Rightarrow> video" where
  "mk_vid i st = \<lparr>ID = i, Path = i, Resolution = [], Bitrate = [], Status = st, OriginalSize = 0\<rparr>"

definition found :: "string \<Rightarrow> string \<Rightarrow> int64 \<Rightarrow> video" where
  "found i p n = \<lparr>ID = i, Path = p, Resolution = [], Bitrate = [], Status = ''unprocessed'',
                  OriginalSize = n\<rparr>"

text \<open>The system state between the \<open>INSERT\<close> of \<open>b.mp4\<close> and its cache write.\<close>

definition race_state :: sys where
  "race_state = \<lparr>srv = (initDB store_a)\<lparr>srv_db := store_a\<lparr>rows := rows store_a @ [row_of_video vid_b]\<rparr>\<rparr>,
                 inflight = [vid_b]\<rparr>"

text \<open>The two queues the page queries of the scenarios answer.\<close>

definition q_p2 :: video_queue where
  "q_p2 = \<lparr>Pending = [mk_vid ''a'' ''pending'', mk_vid ''c'' ''pending''], Processing = [],
           Completed = [], Total = 6\<rparr>"

definition q_odd :: video_queue where
  "q_odd = \<lparr>Pending = [mk_vid ''a'' ''pending''], Processing = [], Completed = [], Total = 3\<rparr>"

text \<open>The server after start-up on \<open>store_a\<close>, and after enqueueing \<open>vid_b\<close> there.\<close>

abbreviation s_a :: server where
  "s_a \<equiv> initDB store_a"

abbreviation s_ab :: server where
  "s_ab \<equiv> snd (addToQueue (initDB store_a) (Some vid_b))"

text \<open>The first page of the \<open>pending\<close> filter.\<close>

abbreviation pending_p1 :: pagination_params where
  "pending_p1 \<equiv> \<lparr>Page = 1, PageSize = 10, StatusFilter = ''pending''\<rparr>"

lemmas scenario_defs = mk_row_def store6_def fs_abc_def videos_abc_def store_a_def
  vid_b_def store_odd_def mk_vid_def found_def race_state_def
  q_p2_def q_odd_def


subsection \<open>Evaluations\<close>

text \<open>
  The concrete runs the witnesses use, computed by \<open>code_simp\<close> from the
  code equations of the model (a state holds a map, so equalities of states
  are computed one component at a time).
\<close>

lemma ordered_store6:
  "ordered_rows store6 None = [mk_row ''b'' ''b'' ''processing'', mk_row ''e'' ''e'' ''processing'',
     mk_row ''a'' ''a'' ''pending'', mk_row ''c'' ''c'' ''pending'', mk_row ''f'' ''f'' ''pending'',
     mk_row ''d'' ''d'' ''completed'']"
  by code_simp

theorem ordered_rows_priority_witness:
  "0 < (2::nat) \<and> 2 < length (ordered_rows store6 None) \<and>
   status_col (ordered_rows store6 None ! 2) = ''pending'' \<and>
   status_col (ordered_rows store6 None ! 0) \<in> {''processing'', ''pending''}"
proof -
  have h: "2 < length (ordered_rows store6 None)" and p: "status_col (ordered_rows store6 None ! 2) = ''pending''"
    by (simp_all add: ordered_store6 mk_row_def)
  show ?thesis using ordered_rows_priority [of 0 2 store6 None] h p by simp
qed

theorem ordered_rows_unique_witness:
  "distinct (map path_col (rows store6)) \<and>
   is_ordered_result store6 (Some ''pending'')
     [mk_row ''a'' ''a'' ''pending'', mk_row ''c'' ''c'' ''pending'', mk_row ''f'' ''f'' ''pending'']"
proof -
  have h: "distinct (map path_col (rows store6))" by (simp add: scenario_defs)
  have o: "ordered_rows store6 (Some ''pending'') =
     [mk_row ''a'' ''a'' ''pending'', mk_row ''c'' ''c'' ''pending'', mk_row ''f'' ''f'' ''pending'']"
    by code_simp
  show ?thesis
    using ordered_rows_unique [OF h, of "Some ''pending''"] h o by simp
qed

lemma getQueue_store6_p2:
  "getQueue store6 (Some \<lparr>Page = 2, PageSize = 2, StatusFilter = []\<rparr>) =
     Inr (\<lparr>Pending = [mk_vid ''a'' ''pending'', mk_vid ''c'' ''pending''], Processing = [],
           Completed = [], Total = 6\<rparr>,
          \<lparr>pg_page = 2, pg_pageSize = 2, pg_total = 6, pg_pages = 3\<rparr>)"
  by code_simp

lemma getQueue_store_odd:
  "getQueue store_odd (Some \<lparr>Page = 1, PageSize = 10, StatusFilter = []\<rparr>) =
     Inr (\<lparr>Pending = [mk_vid ''a'' ''pending''], Processing = [], Completed = [], Total = 3\<rparr>,
          \<lparr>pg_page = 1, pg_pageSize = 10, pg_total = 3, pg_pages = 1\<rparr>)"
  by code_simp
theorem getQueue_page_buckets_witness:
  "online store6 \<and> sql_quote \<notin> set (StatusFilter \<lparr>Page = 2, PageSize = 2, StatusFilter = []\<rparr>)
   \<and> (sint (Page (clamp_params \<lparr>Page = 2, PageSize = 2, StatusFilter = []\<rparr>)) - 1) *
       sint (PageSize (clamp_params \<lparr>Page = 2, PageSize = 2, StatusFilter = []\<rparr>)) < 2 ^ 63
   \<and> getQueue store6 (Some \<lparr>Page = 2, PageSize = 2, StatusFilter = []\<rparr>) =
       Inr (q_p2, \<lparr>pg_page = 2, pg_pageSize = 2, pg_total = 6, pg_pages = 3\<rparr>)
   \<and> Pending q_p2 = scanVideoRows (filter (\<lambda>r. status_col r = ''pending'')
       (page_window (clamp_params \<lparr>Page = 2, PageSize = 2, StatusFilter = []\<rparr>)
         (ordered_rows store6 (filter_of []))))"
proof -
  have h1: "online store6" by (simp add: store6_def)
  have h2: "sql_quote \<notin> set (StatusFilter \<lparr>Page = 2, PageSize = 2, StatusFilter = []\<rparr>)" by simp
  have h3: "(sint (Page (clamp_params \<lparr>Page = 2, PageSize = 2, StatusFilter = []\<rparr>)) - 1) *
       sint (PageSize (clamp_params \<lparr>Page = 2, PageSize = 2, StatusFilter = []\<rparr>)) < 2 ^ 63"
    by (simp add: clamp_params_fields)
  have h4: "getQueue store6 (Some \<lparr>Page = 2, PageSize = 2, StatusFilter = []\<rparr>) =
       Inr (q_p2, \<lparr>pg_page = 2, pg_pageSize = 2, pg_total = 6, pg_pages = 3\<rparr>)"
    by (simp add: getQueue_store6_p2 q_p2_def)
  show ?thesis using getQueue_page_buckets [OF h1 h2 h3 h4] h1 h2 h3 h4 by simp
qed

theorem getQueue_pages_exact_witness:
  "online store6 \<and> sql_quote \<notin> set [] \<and> 1 \<le> sint (2::int64) \<and> sint (2::int64) \<le> 100
   \<and> length (selected_rows store6 (filter_of [])) < 2 ^ 62
   \<and> unat (pages_count (word_of_nat (length (selected_rows store6 (filter_of [])))) 2) = 3"
proof -
  have h1: "online store6" by (simp add: store6_def)
  have h5: "length (selected_rows store6 (filter_of [])) < 2 ^ 62"
    by (simp add: store6_def selected_rows_def filter_of_def status_matches_def)
  have h6: "\<forall>r \<in> set (rows store6). row_ok r \<and> triad_status (status_col r)"
    by (simp add: store6_def mk_row_def row_ok_def triad_status_def)
  have "length (selected_rows store6 (filter_of [])) = 6"
    by (simp add: store6_def selected_rows_def filter_of_def status_matches_def)
  then show ?thesis
    using getQueue_pages_exact [of store6 "[]" 2, OF h1 _ _ _ h5 h6] h1 h5 h6 by simp
qed

theorem page_offset_exact_witness:
  "1 \<le> sint (Page \<lparr>Page = 3, PageSize = 7, StatusFilter = []\<rparr>)
   \<and> 1 \<le> sint (PageSize \<lparr>Page = 3, PageSize = 7, StatusFilter = []\<rparr>)
   \<and> (sint (Page \<lparr>Page = 3, PageSize = 7, StatusFilter = []\<rparr>) - 1) *
       sint (PageSize \<lparr>Page = 3, PageSize = 7, StatusFilter = []\<rparr>) < 2 ^ 63
   \<and> sint (page_offset \<lparr>Page = 3, PageSize = 7, StatusFilter = []\<rparr>) = 14"
  using page_offset_exact [of "\<lparr>Page = 3, PageSize = 7, StatusFilter = []\<rparr>"] by simp

theorem getQueue_items_dropped_witness:
  "online store_odd \<and> sql_quote \<notin> set (StatusFilter \<lparr>Page = 1, PageSize = 10, StatusFilter = []\<rparr>)
   \<and> (sint (Page (clamp_params \<lparr>Page = 1, PageSize = 10, StatusFilter = []\<rparr>)) - 1) *
       sint (PageSize (clamp_params \<lparr>Page = 1, PageSize = 10, StatusFilter = []\<rparr>)) < 2 ^ 63
   \<and> getQueue store_odd (Some \<lparr>Page = 1, PageSize = 10, StatusFilter = []\<rparr>) =
       Inr (q_odd, \<lparr>pg_page = 1, pg_pageSize = 10, pg_total = 3, pg_pages = 1\<rparr>)
   \<and> queue_items q_odd = 1 \<and> Total q_odd = 3"
proof -
  have h1: "online store_odd" by (simp add: store_odd_def)
  have h2: "sql_quote \<notin> set (StatusFilter \<lparr>Page = 1, PageSize = 10, StatusFilter = []\<rparr>)" by simp
  have h3: "(sint (Page (clamp_params \<lparr>Page = 1, PageSize = 10, StatusFilter = []\<rparr>)) - 1) *
       sint (PageSize (clamp_params \<lparr>Page = 1, PageSize = 10, StatusFilter = []\<rparr>)) < 2 ^ 63"
    by (simp add: clamp_params_fields)
  have h4: "getQueue store_odd (Some \<lparr>Page = 1, PageSize = 10, StatusFilter = []\<rparr>) =
       Inr (q_odd, \<lparr>pg_page = 1, pg_pageSize = 10, pg_total = 3, pg_pages = 1\<rparr>)"
    by (simp add: getQueue_store_odd q_odd_def)
  have "length (selected_rows store_odd (filter_of [])) = 3"
    by (simp add: store_odd_def selected_rows_def filter_of_def status_matches_def)
  then show ?thesis using getQueue_items_dropped [OF h1 h2 h3 h4] h1 h2 h3 h4
    by (simp add: q_odd_def queue_items_def)
qed

lemma addToQueue_s_a: "addToQueue s_a (Some vid_b) = (Inr vid_b, s_ab)"
proof (rule pair_of_fst)
  show "fst (addToQueue s_a (Some vid_b)) = Inr vid_b" by code_simp
qed

lemma discover_s_a:
  "getUnprocessedVideos fs_abc (processedPaths s_a) =
     Inr [found ''b.mp4'' ''videos/b.mp4'' 20, found ''c.mp4'' ''videos/c.mp4'' 0]"
  by code_simp

lemma discover_s_ab:
  "getUnprocessedVideos fs_abc (processedPaths s_ab) = Inr [found ''c.mp4'' ''videos/c.mp4'' 0]"
  by code_simp

theorem getUnprocessedVideos_exact_witness:
  "fs_lookup fs_abc (path_components videosDir) = Some videos_abc \<and> fs_wf videos_abc
   \<and> \<not> fs_has_error videos_abc
   \<and> (\<exists>vs. getUnprocessedVideos fs_abc (processedPaths s_a) = Inr vs
          \<and> ''videos/b.mp4'' \<in> Path ` set vs)"
proof -
  have h1: "fs_lookup fs_abc (path_components videosDir) = Some videos_abc" by code_simp
  have h2: "fs_wf videos_abc" by code_simp
  have h3: "\<not> fs_has_error videos_abc" by code_simp
  have b: "fs_lookup videos_abc [''b.mp4''] = Some (FFile (Some 20)) \<and>
      ''videos/b.mp4'' = foldl filepath_Join videosDir [''b.mp4''] \<and>
      filepath_Ext ''videos/b.mp4'' = ''.mp4'' \<and> \<not> cache_lookup (processedPaths s_a) ''videos/b.mp4''"
    by code_simp
  obtain vs where vs: "getUnprocessedVideos fs_abc (processedPaths s_a) = Inr vs"
    "\<forall>p. p \<in> Path ` set vs \<longleftrightarrow>
          (\<exists>cs s. fs_lookup videos_abc cs = Some (FFile s) \<and> p = foldl filepath_Join videosDir cs \<and>
                  filepath_Ext p = ''.mp4'' \<and> \<not> cache_lookup (processedPaths s_a) p)"
    using getUnprocessedVideos_exact [OF h1 h2 h3, of "processedPaths s_a"] by blast
  from b have "''videos/b.mp4'' \<in> Path ` set vs" using vs(2) by blast
  with vs(1) h1 h2 h3 show ?thesis by blast
qed

theorem server_inv_run_witness:
  "distinct (map id_col (rows store6)) \<and>
   server_inv (snd (run fs_abc (initDB store6)
     [PostProcess (Some vid_b), PatchStatus ''a'' (Some ''done''), GetUnprocessed]))"
proof -
  have h: "distinct (map id_col (rows store6))" by (simp add: scenario_defs)
  show ?thesis using server_inv_run [OF h] h by blast
qed

theorem enqueued_never_rediscovered_witness:
  "addToQueue s_a (Some vid_b) = (Inr vid_b, s_ab) \<and> run fs_abc s_ab [] = ([], s_ab)
   \<and> getUnprocessedVideos fs_abc (processedPaths s_ab) = Inr [found ''c.mp4'' ''videos/c.mp4'' 0]
   \<and> Path vid_b \<notin> Path ` set [found ''c.mp4'' ''videos/c.mp4'' 0]"
  using enqueued_never_rediscovered [OF addToQueue_s_a _ discover_s_ab, of "[]" "[]"]
    addToQueue_s_a discover_s_ab by simp

theorem addToQueue_forces_pending_witness:
  "addToQueue s_a (Some vid_b) = (Inr vid_b, s_ab) \<and> Status vid_b = ''completed'' \<and>
   (\<exists>r. rows (srv_db s_ab) = rows (srv_db s_a) @ [r] \<and> status_col r = ''pending'')"
  using addToQueue_forces_pending [OF addToQueue_s_a] addToQueue_s_a
  by (auto simp: vid_b_def)

theorem addToQueue_duplicate_id_witness:
  "online (srv_db s_a) \<and> ID (vid_b\<lparr>ID := ''a.mp4''\<rparr>) \<in> id_col ` set (rows (srv_db s_a)) \<and>
   addToQueue s_a (Some (vid_b\<lparr>ID := ''a.mp4''\<rparr>)) =
     (Inl (ServerError (UniqueViolation ''a.mp4'')), s_a)"
proof -
  have h1: "online (srv_db s_a)" by (simp add: initDB_def store_a_def)
  have h2: "ID (vid_b\<lparr>ID := ''a.mp4''\<rparr>) \<in> id_col ` set (rows (srv_db s_a))"
    by (simp add: initDB_def store_a_def mk_row_def)
  show ?thesis using addToQueue_duplicate_id [OF h1 h2] h1 h2 by simp
qed

theorem addToQueue_duplicate_path_witness:
  "online (srv_db s_a) \<and> ID (vid_b\<lparr>Path := ''videos/a.mp4''\<rparr>) \<notin> id_col ` set (rows (srv_db s_a))
   \<and> Path (vid_b\<lparr>Path := ''videos/a.mp4''\<rparr>) \<in> stored_paths (srv_db s_a)
   \<and> (\<exists>s'. addToQueue s_a (Some (vid_b\<lparr>Path := ''videos/a.mp4''\<rparr>)) =
           (Inr (vid_b\<lparr>Path := ''videos/a.mp4''\<rparr>), s') \<and>
         2 \<le> length (filter (\<lambda>r. path_col r = ''videos/a.mp4'') (rows (srv_db s'))))"
proof -
  have h1: "online (srv_db s_a)" by (simp add: initDB_def store_a_def)
  have h2: "ID (vid_b\<lparr>Path := ''videos/a.mp4''\<rparr>) \<notin> id_col ` set (rows (srv_db s_a))"
    by (simp add: initDB_def store_a_def mk_row_def vid_b_def)
  have h3: "Path (vid_b\<lparr>Path := ''videos/a.mp4''\<rparr>) \<in> stored_paths (srv_db s_a)"
    by (simp add: initDB_def store_a_def mk_row_def stored_paths_def)
  show ?thesis using addToQueue_duplicate_path [OF h1 h2 h3] h1 h2 h3 by simp
qed

theorem updateVideoStatus_unknown_id_witness:
  "online (srv_db s_a) \<and> ''z.mp4'' \<notin> id_col ` set (rows (srv_db s_a)) \<and>
   updateVideoStatus s_a ''z.mp4'' (Some ''completed'') = (Inr (), s_a)"
proof -
  have h1: "online (srv_db s_a)" by (simp add: initDB_def store_a_def)
  have h2: "''z.mp4'' \<notin> id_col ` set (rows (srv_db s_a))"
    by (simp add: initDB_def store_a_def mk_row_def)
  show ?thesis using updateVideoStatus_unknown_id [OF h1 h2] h1 h2 by simp
qed

theorem updateVideoStatus_effect_witness:
  "updateVideoStatus s_a ''a.mp4'' (Some ''done'') =
     (Inr (), snd (updateVideoStatus s_a ''a.mp4'' (Some ''done''))) \<and>
   map status_col (rows (srv_db (snd (updateVideoStatus s_a ''a.mp4'' (Some ''done''))))) = [''done'']"
proof -
  have h: "updateVideoStatus s_a ''a.mp4'' (Some ''done'') =
     (Inr (), snd (updateVideoStatus s_a ''a.mp4'' (Some ''done'')))"
    by (rule pair_of_fst) code_simp
  show ?thesis using updateVideoStatus_effect [OF h] h
    by (simp add: initDB_def store_a_def mk_row_def)
qed

theorem reachable_cache_consistent_witness:
  "reachable store_a \<lparr>srv = s_a, inflight = []\<rparr> \<and>
   cached_paths (processedPaths s_a) \<subseteq> stored_paths (srv_db s_a) \<and>
   stored_paths (srv_db s_a) \<subseteq> cached_paths (processedPaths s_a)"
  using reachable_cache_consistent [OF reachable.init [of store_a]] reachable.init [of store_a]
  by (simp add: initDB_def store_a_def)

theorem quiescent_discovery_sound_witness:
  "reachable store_a \<lparr>srv = s_a, inflight = []\<rparr> \<and> online store_a \<and>
   inflight \<lparr>srv = s_a, inflight = []\<rparr> = [] \<and>
   getUnprocessedVideos fs_abc (processedPaths s_a) =
     Inr [found ''b.mp4'' ''videos/b.mp4'' 20, found ''c.mp4'' ''videos/c.mp4'' 0] \<and>
   ''videos/b.mp4'' \<notin> stored_paths (srv_db s_a) \<and> ''videos/c.mp4'' \<notin> stored_paths (srv_db s_a)"
proof -
  have h2: "online store_a" by (simp add: store_a_def)
  show ?thesis
    using quiescent_discovery_sound [OF reachable.init [of store_a], simplified, OF h2 discover_s_a]
      reachable.init [of store_a] h2 discover_s_a by (simp add: found_def)
qed

lemma step_race_state: "sys_step \<lparr>srv = initDB store_a, inflight = []\<rparr> race_state"
proof -
  let ?S0 = "\<lparr>srv = initDB store_a, inflight = []\<rparr>"
  have ins: "insert_query (srv_db (srv ?S0)) (row_of_video vid_b) =
               Inr (store_a\<lparr>rows := rows store_a @ [row_of_video vid_b]\<rparr>)"
    by (simp add: insert_query_def initDB_def store_a_def mk_row_def row_of_video_def vid_b_def)
  have "race_state = ?S0\<lparr>srv := (srv ?S0)\<lparr>srv_db := store_a\<lparr>rows := rows store_a @ [row_of_video vid_b]\<rparr>\<rparr>,
                       inflight := vid_b # inflight ?S0\<rparr>"
    by (simp add: race_state_def)
  with sys_step.enqueue_insert [OF ins] show ?thesis by simp
qed

lemma reachable_race_state: "reachable store_a race_state"
  by (rule reachable.step [OF reachable.init step_race_state])

lemma inflight_race_state: "inflight race_state = [vid_b]"
  by (simp add: race_state_def)

lemma Path_vid_b [simp]: "Path vid_b = ''videos/b.mp4''"
  by (simp add: vid_b_def)

theorem inflight_drains_witness:
  "reachable store_a race_state \<and>
   (\<exists>S'. reachable store_a S' \<and> sys_step\<^sup>*\<^sup>* race_state S' \<and> inflight S' = [] \<and>
         srv_db (srv S') = srv_db (srv race_state) \<and>
         cached_paths (processedPaths (srv S')) =
           insert ''videos/b.mp4'' (cached_paths (processedPaths (srv race_state))) \<and>
         cached_paths (processedPaths (srv S')) = stored_paths (srv_db (srv S')))"
proof -
  have "online store_a" by (simp add: store_a_def)
  then show ?thesis
    using inflight_drains [OF reachable_race_state] reachable_race_state
    by (simp add: inflight_race_state)
qed

theorem run_rows_scannable_witness:
  "rows_scannable (srv_db (initDB store6)) \<and>
   rows_scannable (srv_db (snd (run fs_abc (initDB store6)
     [PostProcess (Some vid_b), PatchStatus ''a'' (Some ''done'')])))"
proof -
  have h: "rows_scannable (srv_db (initDB store6))"
    by (simp add: rows_scannable_def initDB_def store6_def mk_row_def row_ok_def)
  show ?thesis using run_rows_scannable [OF h] h by blast
qed

theorem enqueue_counted_witness:
  "addToQueue s_a (Some vid_b) = (Inr vid_b, s_ab) \<and>
   Total (fst (projr (getQueue (srv_db s_a) (Some pending_p1)))) = 1 \<and>
   Total (fst (projr (getQueue (srv_db s_ab) (Some pending_p1)))) = 2"
proof -
  have i1: "\<not> isl (getQueue (srv_db s_a) (Some pending_p1))" by code_simp
  have i2: "\<not> isl (getQueue (srv_db s_ab) (Some pending_p1))" by code_simp
  have t1: "Total (fst (projr (getQueue (srv_db s_a) (Some pending_p1)))) = 1" by code_simp
  have "Total (fst (projr (getQueue (srv_db s_ab) (Some pending_p1)))) =
        Total (fst (projr (getQueue (srv_db s_a) (Some pending_p1)))) + 1"
    by (rule enqueue_counted [OF addToQueue_s_a Inr_projr_pair [OF i1] Inr_projr_pair [OF i2]]) simp
  with t1 addToQueue_s_a show ?thesis by simp
qed

theorem serve_enqueue_conflict_witness:
  "online (srv_db s_a) \<and> ID (vid_b\<lparr>ID := ''a.mp4''\<rparr>) \<in> id_col ` set (rows (srv_db s_a)) \<and>
   fst (fst (serve fs_abc s_a \<lparr>req_method = ''POST'', req_path = ''/api/videos/process'', req_query = [],
                              req_video = Some (vid_b\<lparr>ID := ''a.mp4''\<rparr>), req_status = None\<rparr>)) = 500"
proof -
  have h1: "online (srv_db s_a)" by (simp add: initDB_def store_a_def)
  have h2: "ID (vid_b\<lparr>ID := ''a.mp4''\<rparr>) \<in> id_col ` set (rows (srv_db s_a))"
    by (simp add: initDB_def store_a_def mk_row_def)
  show ?thesis using serve_enqueue_conflict [OF h1 h2, of fs_abc "[]" None] h1 h2 by simp
qed

end
