(* ===== verification/Spec2Isabelle.thy ===== *)
theory Spec2Isabelle
  imports Scenarios
begin

text \<open>
  \<^bold>\<open>A verification model of the video converter queue backend.\<close>

  The program is \<open>src/backend/main.go\<close>, a gin server over a PostgreSQL
  table \<open>videos\<close> and a process-wide Go map \<open>processedPaths\<close>. Its parts:
  discovery (\<open>getUnprocessedVideos\<close>, \<open>getFileSize\<close>) walks \<open>./videos\<close>
  and reports the \<open>.mp4\<close> files whose path the cache does not hold; the
  queue view (\<open>getQueue\<close>, \<open>scanVideoRows\<close>) pages the table, grouped
  by status; enqueue (\<open>addToQueue\<close>) inserts a row with status
  \<open>pending\<close> and then adds the path to the cache; the status transition
  (\<open>updateVideoStatus\<close>) overwrites a status; \<open>initDB\<close> and
  \<open>refreshProcessedPathsCache\<close> rebuild the cache from the table at start;
  \<open>main\<close> routes four requests to the handlers.

  \<^bold>\<open>Theories.\<close>
  \<^item> \<open>Prelude\<close>: the type \<open>int64\<close> (a 64-bit word, for Go \<open>int\<close> and
    \<open>int64\<close>, so that \<open>+\<close> and \<open>*\<close> wrap as in Go), Go's truncating
    division \<open>go_div\<close>, and the arithmetic lemmas the components share.
  \<^item> \<open>Model\<close>: the structs \<open>Video\<close>, \<open>VideoQueue\<close>, \<open>PaginationParams\<close>
    and the pagination object as records, the row of the table that
    \<open>initDB\<close> creates (nullable columns as options), the store (its rows
    and whether it is reachable) and the error datatypes.
  \<^item> \<open>Store\<close>: the meaning of each SQL statement of the handlers as a
    function of the store with an error result: the path query, the count
    and page queries (the \<open>WHERE\<close> text is parsed by \<open>parse_where\<close>, the
    \<open>ORDER BY\<close> is \<open>sort_key\<close> on (status rank, path) in the C collation,
    \<open>LIMIT\<close>/\<open>OFFSET\<close> are \<open>take\<close>/\<open>drop\<close> and negative values are
    errors), the \<open>INSERT\<close> (primary key on \<open>id\<close>) and the \<open>UPDATE\<close>. The
    abstract \<open>is_ordered_result\<close> is what an \<open>ORDER BY\<close> promises; the
    model's order refines it and is the only such order when paths are
    distinct.
  \<^item> \<open>Cache\<close>: \<open>processedPaths\<close> as a map \<open>string \<rightharpoonup> bool\<close> (a missing
    key reads \<open>false\<close>), its rebuild and its insertion, refined to sets.
  \<^item> \<open>Discovery\<close>: the file system as a tree of \<open>fnode\<close>s; \<open>filepath.Walk\<close>
    (the entries of a directory in name order, as \<open>readDirNames\<close> sorts
    them; an error aborts the walk; a \<open>function\<close> whose termination is
    proved by the size of the tree), the walk callback,
    \<open>filepath.Ext\<close>, \<open>filepath.Base\<close>, \<open>filepath.Join\<close>, \<open>os.Stat\<close> path
    resolution, \<open>getFileSize\<close> and \<open>getUnprocessedVideos\<close>. Lemmas: the walk
    reports exactly the files of the tree (sound and complete), the error
    iff, and a file is collected exactly when its path ends in \<open>.mp4\<close>,
    case-sensitively.
  \<^item> \<open>QueueView\<close>: \<open>getQueue\<close> with its clamping, its 64-bit offset, the
    spliced \<open>WHERE\<close> clause, the two queries, the scan (a row with a
    \<open>NULL\<close> column is skipped), the grouping loop and the page count;
    \<open>getQueue_reads\<close> lets the two queries read different stores, as
    concurrent writes allow.
    Lemmas: the exact success value, the buckets of a page, exact
    pagination, the offset bound and its wrap-around, the quoting of the
    filter.
  \<^item> \<open>Handlers\<close>: the server state (store and cache), \<open>addToQueue\<close>
    (its cache write, line 268, is \<open>addToQueue_cache\<close>),
    \<open>updateVideoStatus\<close>, \<open>initDB\<close> (\<open>initDB_full\<close>: its statements,
    \<open>log.Fatal\<close> as the end of the process, then the cache rebuild), the
    routing \<open>handle\<close>, sequential runs \<open>run\<close> and \<open>main\<close>. Lemmas: one invariant-preservation lemma per handler, the
    deduplication property over any later run, each handler's behaviour
    on every branch (bad request, store error, success), that rows written
    through the API always scan (a type invariant of the store), and that
    the queue view's total grows by one with each enqueue.
  \<^item> \<open>Interleaving\<close>: concurrent requests as the step relation
    \<open>sys_step\<close>, where \<open>addToQueue\<close> is two atomic steps (its \<open>INSERT\<close>, then
    its own \<open>addToQueue_cache\<close>) and the videos between the two are in
    flight; \<open>reachable\<close> states from \<open>initDB\<close>; the invariant \<open>sys_inv\<close>
    by rule induction; the pending cache writes can always be completed,
    after which the cache holds exactly the stored paths.
  \<^item> \<open>Routing\<close>: the HTTP boundary: gin's matching of the four routes
    (\<open>route_of\<close>), the binding of the \<open>/api/queue\<close> query with its
    \<open>form\<close> defaults and \<open>strconv.ParseInt\<close> (\<open>bind_query\<close>,
    \<open>parse_int64\<close>), the status code of each outcome (\<open>http_status\<close>)
    and the composition \<open>serve\<close> of router, binding and handler. Lemmas:
    the router answers exactly its four routes, a page below \<open>2^63\<close> is
    bound and a larger one is a \<open>400\<close>, a duplicate id is a \<open>500\<close> like a
    lost connection.
  \<^item> \<open>Scenarios\<close>: concrete stores and directories, their evaluation by
    \<open>code_simp\<close>, and one closed instance of every property with hypotheses.
  \<^item> This theory: the two races that span the components. Between the
    \<open>INSERT\<close> and the cache write of an enqueue, discovery reports the
    stored path again (C24); between the count and the page query of
    \<open>getQueue\<close>, the page holds one item more than the reported total (C26).

  \<^bold>\<open>Bounds.\<close> The page offset \<open>(page - 1) * pageSize\<close> is computed in
  64-bit \<open>int\<close>; the lemmas about a page assume it is below \<open>2^63\<close> and
  C16 shows what happens past it. Exact pagination assumes fewer than
  \<open>2^62\<close> rows, so that \<open>total + pageSize - 1\<close> does not wrap. No fuel is
  needed: the row loops and the grouping loop are structural recursion or
  a fold, and the walk over a finite tree terminates by a size measure
  (\<open>walk_measure\<close>), since sorting a directory's entries keeps their sizes.

  \<^bold>\<open>Not modelled.\<close> The HTTP layer beyond \<open>Routing\<close>: the JSON encoding
  of responses and decoding of request bodies (a body arrives as the bound
  value or as a failed binding, \<open>400\<close>), percent-decoding of the URL,
  gin's trailing-slash redirects and the CORS middleware of \<open>main\<close>, none
  of which holds state of the program; an empty query value is read as
  absent (the default), as gin 1.9 and later do; the connection string built from the environment (the
  DDL of \<open>initDB\<close> is modelled by its outcome only: it leaves an existing
  table unchanged or ends the process), a store that changes between the
  statements of \<open>initDB\<close>, the meaning of SQL text other than the
  clauses the handlers build for a status without a quote (such text is a
  \<open>SqlSyntax\<close> error here; C14 shows when the text is not the intended
  clause), \<open>filepath.Clean\<close> beyond the leading \<open>./\<close>, symbolic links,
  \<open>rows.Err()\<close> after the row loops (unchecked by the code), and the data
  race of the unsynchronised Go map beyond the interleaving of atomic steps.
\<close>

text \<open>
  C24. The race window of \<open>addToQueue\<close>: in any reachable state, when a
  client enqueues a video that discovery has just reported, the \<open>INSERT\<close>
  step leads to a reachable state in which the path is stored and
  discovery, run there, still reports the same list (so the stored path is
  reported again and may be enqueued a second time); the cache step that
  follows leaves the same videos in flight as before and discovery no
  longer reports the video.
\<close>

theorem discovery_race_window:
  assumes "reachable d0 S" "getUnprocessedVideos cwd (processedPaths (srv S)) = Inr vs" "v \<in> set vs"
    and "insert_query (srv_db (srv S)) (row_of_video v) = Inr d'"
  shows "\<exists>S'. sys_step S S' \<and> reachable d0 S' \<and> Path v \<in> stored_paths (srv_db (srv S')) \<and>
            getUnprocessedVideos cwd (processedPaths (srv S')) = Inr vs \<and>
            (\<exists>u \<in> set vs. Path u \<in> stored_paths (srv_db (srv S'))) \<and>
            (\<exists>S''. sys_step S' S'' \<and> inflight S'' = inflight S \<and> srv_db (srv S'') = d' \<and>
               (\<forall>vs'. getUnprocessedVideos cwd (processedPaths (srv S'')) = Inr vs' \<longrightarrow> v \<notin> set vs'))"
proof -
  let ?S1 = "S\<lparr>srv := (srv S)\<lparr>srv_db := d'\<rparr>, inflight := v # inflight S\<rparr>"
  let ?S2 = "?S1\<lparr>srv := addToQueue_cache (srv ?S1) v, inflight := remove1 v (inflight ?S1)\<rparr>"
  have s1: "sys_step S ?S1" using assms(4) by (rule sys_step.enqueue_insert)
  have s2: "sys_step ?S1 ?S2" by (rule sys_step.enqueue_cache) simp
  have r: "reachable d0 ?S1" using assms(1) s1 by (rule reachable.step)
  have st: "Path v \<in> stored_paths (srv_db (srv ?S1))"
    using stored_paths_insert [OF assms(4)] by (simp add: row_of_video_def)
  have d: "getUnprocessedVideos cwd (processedPaths (srv ?S1)) = Inr vs" using assms(2) by simp
  have "cache_lookup (processedPaths (srv ?S2)) (Path v)" by (simp add: addToQueue_cache_def)
  then have "\<forall>vs'. getUnprocessedVideos cwd (processedPaths (srv ?S2)) = Inr vs' \<longrightarrow> v \<notin> set vs'"
    using getUnprocessedVideos_not_cached by blast
  moreover have "inflight ?S2 = inflight S" "srv_db (srv ?S2) = d'" by (simp_all add: addToQueue_cache_def)
  ultimately show ?thesis using s1 s2 r st d assms(3) by blast
qed

theorem discovery_race_window_witness:
  "reachable store_a \<lparr>srv = s_a, inflight = []\<rparr> \<and>
   getUnprocessedVideos fs_abc (processedPaths s_a) =
     Inr [found ''b.mp4'' ''videos/b.mp4'' 20, found ''c.mp4'' ''videos/c.mp4'' 0] \<and>
   (\<exists>S'. sys_step \<lparr>srv = s_a, inflight = []\<rparr> S' \<and> reachable store_a S' \<and>
      ''videos/b.mp4'' \<in> stored_paths (srv_db (srv S')) \<and>
      getUnprocessedVideos fs_abc (processedPaths (srv S')) =
        Inr [found ''b.mp4'' ''videos/b.mp4'' 20, found ''c.mp4'' ''videos/c.mp4'' 0])"
proof -
  let ?v = "found ''b.mp4'' ''videos/b.mp4'' 20"
  have m: "?v \<in> set [?v, found ''c.mp4'' ''videos/c.mp4'' 0]" by simp
  have i: "insert_query (srv_db s_a) (row_of_video ?v) =
             Inr (store_a\<lparr>rows := rows store_a @ [row_of_video ?v]\<rparr>)"
    by (simp add: insert_query_def initDB_def store_a_def mk_row_def row_of_video_def found_def)
  have p: "Path ?v = ''videos/b.mp4''" by (simp add: found_def)
  show ?thesis
    using discovery_race_window [OF reachable.init [of store_a], simplified, OF discover_s_a m i]
      reachable.init [of store_a] discover_s_a p by auto
qed

text \<open>
  C26. The count and the page of the queue view are two statements: when
  an enqueue's \<open>INSERT\<close> falls between them, on a store of well-formed
  rows that fits one page, the page shows one item more than the total it
  reports.
\<close>

theorem queue_count_race:
  assumes "insert_query d (row_of_video v) = Inr d'"
    and "\<forall>r \<in> set (rows d). row_ok r \<and> triad_status (status_col r)"
    and "int (length (rows d)) < sint k" "sint k \<le> 100"
    and "getQueue_reads d d' (Some \<lparr>Page = 1, PageSize = k, StatusFilter = []\<rparr>) = Inr (q, pg)"
  shows "Total q = word_of_nat (length (rows d)) \<and> queue_items q = length (rows d) + 1"
proof -
  let ?p = "\<lparr>Page = 1, PageSize = k, StatusFilter = []\<rparr> :: pagination_params"
  from assms(1) have on: "online d" and d': "rows d' = rows d @ [row_of_video v]" "online d'"
    by (auto simp: insert_query_Inr)
  have k: "1 \<le> sint k" using assms(3) by linarith
  have c: "clamp_params ?p = ?p" using k assms(4) by (intro clamp_params_valid) simp_all
  have K: "int (unat k) = sint k" using k by (intro unat_eq_sint_nonneg) simp
  have all: "\<forall>r \<in> set (ordered_rows d' None). row_ok r \<and> triad_status (status_col r)"
    using assms(2) d'(1) by (auto simp: ordered_rows_def selected_rows_def status_matches_def
        row_of_video_def row_ok_def triad_status_def)
  have len: "length (ordered_rows d' None) = length (rows d) + 1"
    using d'(1) by (simp add: length_ordered_rows selected_rows_def status_matches_def)
  have "length (rows d) < unat k" using K assms(3) by linarith
  with len have win: "page_window ?p (ordered_rows d' None) = ordered_rows d' None"
    by (simp add: page_window_def)
  have "getQueue_reads d d' (Some ?p) =
          Inr (group_videos (word_of_nat (length (rows d))) (scanVideoRows (ordered_rows d' None)),
               \<lparr>pg_page = 1, pg_pageSize = k, pg_total = word_of_nat (length (rows d)),
                pg_pages = pages_count (word_of_nat (length (rows d))) k\<rparr>)"
    using getQueue_reads_success [OF on d'(2), of ?p] c win
    by (simp add: filter_of_def selected_rows_def status_matches_def)
  with assms(5) have q: "q = group_videos (word_of_nat (length (rows d))) (scanVideoRows (ordered_rows d' None))"
    by simp
  have "queue_items q = length (ordered_rows d' None)"
    unfolding q queue_items_group using all by (simp add: filter_id_conv)
  moreover have "Total q = word_of_nat (length (rows d))"
    by (simp add: q group_videos_def foldl_group_step)
  ultimately show ?thesis using len by simp
qed

theorem queue_count_race_witness:
  "insert_query store_a (row_of_video vid_b) = Inr (store_a\<lparr>rows := rows store_a @ [row_of_video vid_b]\<rparr>) \<and>
   int (length (rows store_a)) < sint (10::int64) \<and>
   Total (fst (projr (getQueue_reads store_a (store_a\<lparr>rows := rows store_a @ [row_of_video vid_b]\<rparr>)
     (Some \<lparr>Page = 1, PageSize = 10, StatusFilter = []\<rparr>)))) = 1 \<and>
   queue_items (fst (projr (getQueue_reads store_a (store_a\<lparr>rows := rows store_a @ [row_of_video vid_b]\<rparr>)
     (Some \<lparr>Page = 1, PageSize = 10, StatusFilter = []\<rparr>)))) = 2"
proof -
  have h1: "insert_query store_a (row_of_video vid_b) = Inr (store_a\<lparr>rows := rows store_a @ [row_of_video vid_b]\<rparr>)"
    by (simp add: insert_query_def store_a_def mk_row_def row_of_video_def vid_b_def)
  have h2: "\<forall>r \<in> set (rows store_a). row_ok r \<and> triad_status (status_col r)"
    by (simp add: store_a_def mk_row_def row_ok_def triad_status_def)
  have h3: "int (length (rows store_a)) < sint (10::int64)" by (simp add: store_a_def)
  have i: "\<not> isl (getQueue_reads store_a (store_a\<lparr>rows := rows store_a @ [row_of_video vid_b]\<rparr>)
     (Some \<lparr>Page = 1, PageSize = 10, StatusFilter = []\<rparr>))" by code_simp
  show ?thesis
    using queue_count_race [OF h1 h2 h3 _ Inr_projr_pair [OF i]] h1 h3 by (simp add: store_a_def)
qed

end
